theory Spec2Isabelle
  imports Main "HOL-Library.Word"
begin

unbundle bit_operations_syntax

section \<open>Radikant-JSON-C: a shallow embedding of rjson.c\<close>

text \<open>
  The development follows the implementation of the codec (the C source that defines
  \<^verbatim>\<open>RJSON_MAX_DEPTH\<close>, the string buffer, the decoder, the encoder and the mutators).

  \<^item> A C string (\<^verbatim>\<open>const char *\<close>) is a \<open>string\<close>: the bytes before the terminating
    NUL. Reading at the end of the list reads the terminator (\<open>peek\<close>); \<open>cstr\<close> cuts a
    byte list at its first NUL, as every C string function does.
  \<^item> A cursor \<^verbatim>\<open>const char **json\<close> is the remaining input; a sub-parser returns the value
    it built together with the input that is left, or \<open>None\<close> where the C returns NULL.
  \<^item> \<^verbatim>\<open>double\<close> is its IEEE-754 binary64 bit pattern, a \<open>64 word\<close>. The two functions of
    the C library that convert between text and binary64, \<^verbatim>\<open>strtod\<close> and
    \<^verbatim>\<open>snprintf("%.17g")\<close>, are not code of this repository: they are the fields of a
    record \<open>libc\<close> that every function using them takes as its first argument. A
    reference implementation of the two (correctly rounded) is defined in section 5 and
    used at concrete inputs.
  \<^item> The tree layer (sections 2 to 5) describes the executions in which every allocation
    succeeds: a value is a \<open>datatype\<close> and owns its children. The memory layer (section 7)
    models the heap, the allocator's failures and \<^verbatim>\<open>realloc\<close>, for the mutators and for
    \<^verbatim>\<open>rjson_free\<close>.
\<close>

subsection \<open>1. Bytes, C strings, the C library\<close>

type_synonym double = "64 word"

definition NUL :: char where
  "NUL = CHR 0x00"

text \<open>\<^verbatim>\<open>(unsigned char)c\<close>\<close>
definition uc :: "char \<Rightarrow> nat" where
  "uc c = of_char c"

text \<open>\<^verbatim>\<open>(char)x\<close> for a \<^verbatim>\<open>uint32_t\<close> x: the low eight bits.\<close>
definition to_char :: "32 word \<Rightarrow> char" where
  "to_char x = char_of (unat x)"

text \<open>\<^verbatim>\<open>**json\<close>: the byte at the cursor, the terminator at the end.\<close>
definition peek :: "string \<Rightarrow> char" where
  "peek s = (case s of [] \<Rightarrow> NUL | c # _ \<Rightarrow> c)"

definition cstr :: "string \<Rightarrow> string" where
  "cstr s = takeWhile (\<lambda>c. c \<noteq> NUL) s"

text \<open>\<^verbatim>\<open>isdigit((unsigned char)c)\<close>\<close>
definition isdigit :: "char \<Rightarrow> bool" where
  "isdigit c = (48 \<le> uc c \<and> uc c \<le> 57)"

text \<open>\<^verbatim>\<open>isfinite(num)\<close>: the exponent field is not all ones.\<close>
definition isfinite :: "double \<Rightarrow> bool" where
  "isfinite x = (drop_bit 52 x AND 0x7FF \<noteq> 0x7FF)"

text \<open>
  The C library. \<open>strtod L s\<close> is \<^verbatim>\<open>strtod(s, &end)\<close> on the C string \<open>s\<close>: the value
  returned, \<^verbatim>\<open>end - s\<close>, and whether the call set \<^verbatim>\<open>errno\<close> to \<^verbatim>\<open>ERANGE\<close>.
  \<open>snprintf_g L p x\<close> is the complete output of the format \<^verbatim>\<open>"%.pg"\<close> on \<open>x\<close>.
  \<open>stale_byte L s i\<close> is the byte that a read at the offset \<open>i\<close> of a block finds after
  the block, which held the C string \<open>s\<close>, was passed to \<^verbatim>\<open>free\<close>. Such a read is undefined
  behaviour in C, and what it finds differs from run to run; the byte is a parameter
  here, so that a statement for every \<open>L\<close> holds whatever byte is found. Any other
  effect of such a read is outside this model.
\<close>
record libc =
  strtod :: "string \<Rightarrow> double \<times> nat \<times> bool"
  snprintf_g :: "nat \<Rightarrow> double \<Rightarrow> string"
  stale_byte :: "string \<Rightarrow> nat \<Rightarrow> char"

subsection \<open>2. The value tree\<close>

text \<open>
  \<^verbatim>\<open>struct rjson_value\<close>: the tag and the member of the union it selects. An object's two
  parallel arrays \<^verbatim>\<open>keys\<close> and \<^verbatim>\<open>values\<close> of one \<^verbatim>\<open>count\<close> are the list of the pairs
  \<open>(keys[i], values[i])\<close>, in index order.
\<close>
datatype rjson_value =
    RJSON_NULL
  | RJSON_BOOL int
  | RJSON_NUMBER double
  | RJSON_STRING string
  | RJSON_ARRAY "rjson_value list"
  | RJSON_OBJECT "(string \<times> rjson_value) list"

definition RJSON_MAX_DEPTH :: nat where
  "RJSON_MAX_DEPTH = 512"

definition rjson_null_new :: rjson_value where
  "rjson_null_new = RJSON_NULL"

definition rjson_bool_new :: "int \<Rightarrow> rjson_value" where
  "rjson_bool_new bool_val = RJSON_BOOL (if bool_val \<noteq> 0 then 1 else 0)"

definition rjson_number_new :: "double \<Rightarrow> rjson_value" where
  "rjson_number_new num_val = RJSON_NUMBER num_val"

definition rjson_string_new :: "string \<Rightarrow> rjson_value" where
  "rjson_string_new str_val = RJSON_STRING (cstr str_val)"

definition rjson_array_new :: rjson_value where
  "rjson_array_new = RJSON_ARRAY []"

definition rjson_object_new :: rjson_value where
  "rjson_object_new = RJSON_OBJECT []"

text \<open>
  The mutators on the tree, where the allocations succeed: \<open>None\<close> is the return code -1
  of the guard (a target that is not of the right type; NULL arguments are \<open>None\<close> in
  \<open>rjson_object_get_value\<close> and in the memory layer), \<open>Some\<close> the target after the call.
\<close>
fun rjson_array_add :: "rjson_value \<Rightarrow> rjson_value \<Rightarrow> rjson_value option" where
  "rjson_array_add (RJSON_ARRAY elements) element = Some (RJSON_ARRAY (elements @ [element]))"
| "rjson_array_add _ element = None"

fun rjson_object_add :: "rjson_value \<Rightarrow> string \<Rightarrow> rjson_value \<Rightarrow> rjson_value option" where
  "rjson_object_add (RJSON_OBJECT members) key v = Some (RJSON_OBJECT (members @ [(cstr key, v)]))"
| "rjson_object_add _ key v = None"

text \<open>
  \<^verbatim>\<open>rjson_object_get_value\<close>: the loop over \<open>i = 0 ..< count\<close> returns \<open>values[i]\<close> at the
  first \<open>i\<close> with \<^verbatim>\<open>strcmp(keys[i], key) == 0\<close>. A NULL \<open>object\<close> or \<open>key\<close> is \<open>None\<close>.
\<close>
fun object_get_loop :: "(string \<times> rjson_value) list \<Rightarrow> string \<Rightarrow> rjson_value option" where
  "object_get_loop [] key = None"
| "object_get_loop ((k, v) # members) key =
     (if cstr k = cstr key then Some v else object_get_loop members key)"

fun rjson_object_get_value :: "rjson_value option \<Rightarrow> string option \<Rightarrow> rjson_value option" where
  "rjson_object_get_value (Some (RJSON_OBJECT members)) (Some key) = object_get_loop members key"
| "rjson_object_get_value _ _ = None"

subsection \<open>3. The decoder\<close>

definition is_ws :: "char \<Rightarrow> bool" where
  "is_ws c = (c = CHR '' '' \<or> c = CHR 0x09 \<or> c = CHR 0x0A \<or> c = CHR 0x0D)"

definition skip_whitespace :: "string \<Rightarrow> string" where
  "skip_whitespace json = dropWhile is_ws json"

text \<open>
  The value \<open>v\<close> of one hexadecimal digit in \<^verbatim>\<open>unescape_string\<close>; \<open>None\<close> is \<open>v < 0\<close>.
  The comparisons of the C are on \<^verbatim>\<open>char\<close>; between ASCII bounds they agree with the
  comparisons of the unsigned bytes.
\<close>
definition hex_value :: "char \<Rightarrow> 32 word option" where
  "hex_value c =
     (if 48 \<le> uc c \<and> uc c \<le> 57 then Some (of_nat (uc c - 48))
      else if 97 \<le> uc c \<and> uc c \<le> 102 then Some (of_nat (uc c - 97 + 10))
      else if 65 \<le> uc c \<and> uc c \<le> 70 then Some (of_nat (uc c - 65 + 10))
      else None)"

text \<open>The loop \<^verbatim>\<open>cp = (cp << 4) | v\<close> over the digits it is given (four of them).\<close>
fun hex4_loop :: "32 word \<Rightarrow> string \<Rightarrow> 32 word option" where
  "hex4_loop cp [] = Some cp"
| "hex4_loop cp (c # cs) =
     (case hex_value c of None \<Rightarrow> None | Some v \<Rightarrow> hex4_loop (push_bit 4 cp OR v) cs)"

text \<open>
  After a high surrogate \<open>cp\<close>, with \<open>r\<close> the input behind its fourth digit: the look-ahead
  for \<^verbatim>\<open>\uXXXX\<close> with a low surrogate. It returns the code point and the input to go on
  with: the combined code point behind the second escape, or \<open>cp\<close> and \<open>r\<close> as they were.
\<close>
definition low_surrogate :: "32 word \<Rightarrow> string \<Rightarrow> 32 word \<times> string" where
  "low_surrogate cp r =
     (if 6 \<le> length r \<and> r ! 0 = CHR 0x5C \<and> r ! 1 = CHR ''u'' then
        (case hex4_loop 0 (take 4 (drop 2 r)) of
           None \<Rightarrow> (cp, r)
         | Some low \<Rightarrow>
             if 0xDC00 \<le> low \<and> low \<le> 0xDFFF
             then (0x10000 + push_bit 10 (cp - 0xD800) + (low - 0xDC00), drop 6 r)
             else (cp, r))
      else (cp, r))"

definition utf8_encode :: "32 word \<Rightarrow> string" where
  "utf8_encode cp =
     (if cp < 0x80 then [to_char cp]
      else if cp < 0x800 then
        [to_char (0xC0 OR drop_bit 6 cp), to_char (0x80 OR (cp AND 0x3F))]
      else if cp < 0x10000 then
        [to_char (0xE0 OR drop_bit 12 cp), to_char (0x80 OR (drop_bit 6 cp AND 0x3F)),
         to_char (0x80 OR (cp AND 0x3F))]
      else
        [to_char (0xF0 OR drop_bit 18 cp), to_char (0x80 OR (drop_bit 12 cp AND 0x3F)),
         to_char (0x80 OR (drop_bit 6 cp AND 0x3F)), to_char (0x80 OR (cp AND 0x3F))])"

text \<open>
  The \<open>\u\<close> case of \<^verbatim>\<open>unescape_string\<close>, with \<open>q\<close> the input behind the \<open>u\<close>: the code
  point to encode and the input to go on with, or \<open>None\<close> where the C frees \<open>out\<close> and
  returns NULL.
\<close>
definition unicode_escape :: "string \<Rightarrow> (32 word \<times> string) option" where
  "unicode_escape q =
     (if length q < 4 then None
      else case hex4_loop 0 (take 4 q) of
        None \<Rightarrow> None
      | Some cp \<Rightarrow>
          let (cp', r) = (if 0xD800 \<le> cp \<and> cp \<le> 0xDBFF then low_surrogate cp (drop 4 q)
                          else (cp, drop 4 q))
          in if (0xD800 \<le> cp' \<and> cp' \<le> 0xDFFF) \<or> cp' = 0 then None else Some (cp', r))"

lemma low_surrogate_length: "low_surrogate cp r = (cp', r') \<Longrightarrow> length r' \<le> length r"
  by (auto simp: low_surrogate_def split: option.splits if_splits)

lemma unicode_escape_length: "unicode_escape q = Some (cp, r) \<Longrightarrow> length r < Suc (length q)"
  by (auto simp: unicode_escape_def Let_def split: option.splits if_splits prod.splits
      dest!: low_surrogate_length)

text \<open>
  The loop of \<^verbatim>\<open>unescape_string\<close>: \<open>out\<close> holds the bytes written so far (up to \<open>d\<close>), the
  second argument is the input from \<open>p\<close> to \<open>in_end\<close>.
\<close>
function unescape_loop :: "string \<Rightarrow> string \<Rightarrow> string option" where
  "unescape_loop out [] = Some out"
| "unescape_loop out (c # p) =
     (if c \<noteq> CHR 0x5C then unescape_loop (out @ [c]) p
      else case p of
        [] \<Rightarrow> None
      | e # q \<Rightarrow>
          if e = CHR 0x22 then unescape_loop (out @ [CHR 0x22]) q
          else if e = CHR 0x5C then unescape_loop (out @ [CHR 0x5C]) q
          else if e = CHR ''/'' then unescape_loop (out @ [CHR ''/'']) q
          else if e = CHR ''b'' then unescape_loop (out @ [CHR 0x08]) q
          else if e = CHR ''f'' then unescape_loop (out @ [CHR 0x0C]) q
          else if e = CHR ''n'' then unescape_loop (out @ [CHR 0x0A]) q
          else if e = CHR ''r'' then unescape_loop (out @ [CHR 0x0D]) q
          else if e = CHR ''t'' then unescape_loop (out @ [CHR 0x09]) q
          else if e = CHR ''u'' then
            (case unicode_escape q of
               None \<Rightarrow> None
             | Some (cp, r) \<Rightarrow> unescape_loop (out @ utf8_encode cp) r)
          else None)"
  by pat_completeness auto
termination
  by (relation "measure (\<lambda>(out, p). length p)") (auto dest: unicode_escape_length)

definition unescape_string :: "string \<Rightarrow> string option" where
  "unescape_string body = unescape_loop [] body"

text \<open>
  The scanning loop of \<^verbatim>\<open>parse_string\<close>, from behind the opening quote: the offset of the
  closing quote, or \<open>None\<close> where the C returns NULL.
\<close>
fun string_scan :: "string \<Rightarrow> nat option" where
  "string_scan [] = None"
| "string_scan (c # s) =
     (if c = CHR 0x22 then Some 0
      else if uc c < 0x20 then None
      else if c = CHR 0x5C then
        (case s of
           [] \<Rightarrow> None
         | e # s' \<Rightarrow> if e = NUL then None else map_option (\<lambda>n. n + 2) (string_scan s'))
      else map_option Suc (string_scan s))"

definition parse_string :: "string \<Rightarrow> (rjson_value \<times> string) option" where
  "parse_string json =
     (let start = tl json in
      case string_scan start of
        None \<Rightarrow> None
      | Some n \<Rightarrow>
          (case unescape_string (take n start) of
             None \<Rightarrow> None
           | Some str_content \<Rightarrow> Some (RJSON_STRING str_content, drop (Suc n) start)))"

text \<open>
  The grammar check of \<^verbatim>\<open>parse_number\<close>, in its three parts (integer part, fractional
  part, exponent part): each returns the cursor it leaves, or \<open>None\<close> where the C returns
  NULL. \<open>number_scan\<close> is the whole check, from \<open>start\<close>.
\<close>
definition number_int :: "string \<Rightarrow> string option" where
  "number_int s =
     (if peek s = CHR ''0'' then
        (if isdigit (peek (tl s)) then None else Some (tl s))
      else if isdigit (peek s) then Some (dropWhile isdigit s)
      else None)"

definition number_frac :: "string \<Rightarrow> string option" where
  "number_frac s =
     (if peek s = CHR ''.'' then
        (if \<not> isdigit (peek (tl s)) then None else Some (dropWhile isdigit (tl s)))
      else Some s)"

definition number_exp :: "string \<Rightarrow> string option" where
  "number_exp s =
     (if peek s = CHR ''e'' \<or> peek s = CHR ''E'' then
        (let s1 = tl s;
             s2 = (if peek s1 = CHR ''+'' \<or> peek s1 = CHR ''-'' then tl s1 else s1)
         in if \<not> isdigit (peek s2) then None else Some (dropWhile isdigit s2))
      else Some s)"

definition number_scan :: "string \<Rightarrow> string option" where
  "number_scan json =
     (case number_int (if peek json = CHR ''-'' then tl json else json) of
        None \<Rightarrow> None
      | Some s2 \<Rightarrow>
          (case number_frac s2 of
             None \<Rightarrow> None
           | Some s3 \<Rightarrow> number_exp s3))"

text \<open>
  \<^verbatim>\<open>parse_number\<close>: \<open>n\<close> is \<^verbatim>\<open>*json - start\<close> after the grammar check. The first
  \<^verbatim>\<open>strtod\<close> reads from \<open>start\<close> in the whole input; the second one, taken when the first
  one did not stop at \<^verbatim>\<open>*json\<close>, reads the copy \<open>temp_num\<close> of the \<open>n\<close> bytes, and neither
  \<^verbatim>\<open>errno\<close> nor \<^verbatim>\<open>isfinite\<close> is tested after it. The C releases \<open>temp_num\<close> before it
  tests \<^verbatim>\<open>*end\<close>, which points into that block: the test reads released memory, and the
  byte it finds is \<open>stale_byte\<close>. Whether this branch accepts is thus not determined by
  the input.
\<close>
definition parse_number :: "libc \<Rightarrow> string \<Rightarrow> (rjson_value \<times> string) option" where
  "parse_number L json =
     (case number_scan json of
        None \<Rightarrow> None
      | Some rest \<Rightarrow>
          let n = length json - length rest;
              (num, e, erange) = strtod L json
          in if erange \<or> \<not> isfinite num then None
             else if e \<noteq> n then
               (let (num', e', erange') = strtod L (take n json)
                in if stale_byte L (take n json) e' \<noteq> NUL then None
                   else Some (RJSON_NUMBER num', rest))
             else Some (RJSON_NUMBER num, rest))"

definition parse_literal :: "string \<Rightarrow> (rjson_value \<times> string) option" where
  "parse_literal json =
     (if take 4 json = ''true'' then Some (RJSON_BOOL 1, drop 4 json)
      else if take 5 json = ''false'' then Some (RJSON_BOOL 0, drop 5 json)
      else if take 4 json = ''null'' then Some (RJSON_NULL, drop 4 json)
      else None)"

text \<open>\<^verbatim>\<open>key_val->as.str_val\<close>\<close>
fun str_val :: "rjson_value \<Rightarrow> string" where
  "str_val (RJSON_STRING s) = s"
| "str_val _ = []"

text \<open>
  The recursive descent. A call returns the value and the cursor it leaves. The two
  loops are the \<^verbatim>\<open>while (1)\<close> loops of \<^verbatim>\<open>parse_array\<close> and \<^verbatim>\<open>parse_object\<close>, with the
  container under construction as an argument. \<^verbatim>\<open>parse_array\<close> and \<^verbatim>\<open>parse_object\<close> are
  entered at the bracket they skip (\<^verbatim>\<open>(*json)++\<close>); they are never called at the end of
  the input. The test \<open>length r < length json\<close> in the loops is not in the C: it bounds
  the recursion for the termination proof, and \<open>parse_value_shorter\<close> below shows that it
  never fails, so that the lemmas \<open>parse_array_loop_eq\<close> and \<open>parse_object_loop_eq\<close>
  state the loops as the C has them.
\<close>

lemma string_scan_bound: "string_scan s = Some n \<Longrightarrow> n < length s"
  by (induction s arbitrary: n rule: string_scan.induct) (auto split: if_splits list.splits)

lemma parse_string_length: "parse_string json = Some (v, r) \<Longrightarrow> length r \<le> length json"
  by (auto simp: parse_string_def Let_def split: option.splits)

lemma skip_whitespace_length: "length (skip_whitespace s) \<le> length s"
  by (simp add: skip_whitespace_def length_dropWhile_le)

function parse_value :: "libc \<Rightarrow> string \<Rightarrow> nat \<Rightarrow> (rjson_value \<times> string) option"
  and parse_array :: "libc \<Rightarrow> string \<Rightarrow> nat \<Rightarrow> (rjson_value \<times> string) option"
  and parse_array_loop :: "libc \<Rightarrow> rjson_value \<Rightarrow> string \<Rightarrow> nat \<Rightarrow> (rjson_value \<times> string) option"
  and parse_object :: "libc \<Rightarrow> string \<Rightarrow> nat \<Rightarrow> (rjson_value \<times> string) option"
  and parse_object_loop :: "libc \<Rightarrow> rjson_value \<Rightarrow> string \<Rightarrow> nat \<Rightarrow> (rjson_value \<times> string) option"
where
  "parse_value L json depth =
     (let s = skip_whitespace json; c = peek s in
      if c = CHR 0x22 then parse_string s
      else if c = CHR ''['' then parse_array L s depth
      else if c = CHR ''{'' then parse_object L s depth
      else if c = CHR ''t'' \<or> c = CHR ''f'' \<or> c = CHR ''n'' then parse_literal s
      else if c = CHR ''-'' \<or> isdigit c then parse_number L s
      else None)"
| "parse_array L [] depth = None"
| "parse_array L (c # json) depth =
     (if depth \<ge> RJSON_MAX_DEPTH then None
      else
        let s = skip_whitespace json in
        if peek s = CHR '']'' then Some (rjson_array_new, tl s)
        else parse_array_loop L rjson_array_new s depth)"
| "parse_array_loop L arr_val json depth =
     (case parse_value L json (depth + 1) of
        None \<Rightarrow> None
      | Some (element, r) \<Rightarrow>
          if \<not> length r < length json then None
          else
            (case rjson_array_add arr_val element of
               None \<Rightarrow> None
             | Some arr_val' \<Rightarrow>
                 let s = skip_whitespace r in
                 if peek s = CHR '']'' then Some (arr_val', tl s)
                 else if peek s \<noteq> CHR '','' then None
                 else parse_array_loop L arr_val' (tl s) depth))"
| "parse_object L [] depth = None"
| "parse_object L (c # json) depth =
     (if depth \<ge> RJSON_MAX_DEPTH then None
      else
        let s = skip_whitespace json in
        if peek s = CHR ''}'' then Some (rjson_object_new, tl s)
        else parse_object_loop L rjson_object_new s depth)"
| "parse_object_loop L obj_val json depth =
     (let s = skip_whitespace json in
      if peek s \<noteq> CHR 0x22 then None
      else
        (case parse_string s of
           None \<Rightarrow> None
         | Some (key_val, r) \<Rightarrow>
             let s1 = skip_whitespace r in
             if peek s1 \<noteq> CHR '':'' then None
             else
               (case parse_value L (tl s1) (depth + 1) of
                  None \<Rightarrow> None
                | Some (v, r1) \<Rightarrow>
                    if \<not> length r1 < length json then None
                    else
                      (case rjson_object_add obj_val (str_val key_val) v of
                         None \<Rightarrow> None
                       | Some obj_val' \<Rightarrow>
                           let s2 = skip_whitespace r1 in
                           if peek s2 = CHR ''}'' then Some (obj_val', tl s2)
                           else if peek s2 \<noteq> CHR '','' then None
                           else parse_object_loop L obj_val' (tl s2) depth))))"
  by pat_completeness auto
termination
  apply (relation "inv_image (less_than <*lex*> less_than)
     (\<lambda>x. case x of
        Inl (Inl (L, s, d)) \<Rightarrow> (length s, 1::nat)
      | Inl (Inr (L, s, d)) \<Rightarrow> (length s, 0)
      | Inr (Inl (L, a, s, d)) \<Rightarrow> (length s, 2)
      | Inr (Inr (Inl (L, s, d))) \<Rightarrow> (length s, 0)
      | Inr (Inr (Inr (L, a, s, d))) \<Rightarrow> (length s, 2))")
  apply (auto simp: skip_whitespace_length le_imp_less_Suc)
  subgoal for json using skip_whitespace_length [of json] by linarith
  subgoal for json using skip_whitespace_length [of json] by linarith
  subgoal for L arr_val json depth a b using skip_whitespace_length [of b] by linarith
  subgoal for json a b
    using skip_whitespace_length [of json] skip_whitespace_length [of b]
      parse_string_length [of "skip_whitespace json" a b] by linarith
  subgoal for L obj_val json depth a b aa ba
    using skip_whitespace_length [of ba] by linarith
  done

declare parse_value.simps [simp del] parse_array.simps [simp del]
  parse_array_loop.simps [simp del] parse_object.simps [simp del]
  parse_object_loop.simps [simp del]


text \<open>\<^verbatim>\<open>rjson_parse\<close>; a NULL \<open>json_string\<close> is \<open>None\<close>.\<close>
definition rjson_parse :: "libc \<Rightarrow> string option \<Rightarrow> rjson_value option" where
  "rjson_parse L json_string =
     (case json_string of
        None \<Rightarrow> None
      | Some str \<Rightarrow>
          let s0 = cstr str;
              s = (if take 3 s0 = [CHR 0xEF, CHR 0xBB, CHR 0xBF] then drop 3 s0 else s0)
          in case parse_value L s 0 of
               None \<Rightarrow> None
             | Some (result, current_pos) \<Rightarrow>
                 if peek (skip_whitespace current_pos) \<noteq> NUL then None else Some result)"

subsection \<open>4. The string buffer and the encoder\<close>

text \<open>
  \<^verbatim>\<open>struct strbuf\<close>: \<open>buffer\<close> holds the bytes before the terminator. Allocation succeeds
  in this layer, so \<^verbatim>\<open>strbuf_init\<close> and \<^verbatim>\<open>strbuf_append\<close> always return 0 and are modelled
  by the buffer they leave.
\<close>
record strbuf =
  buffer :: string
  length_sb :: nat
  capacity :: nat

definition strbuf_init :: "nat \<Rightarrow> strbuf" where
  "strbuf_init initial_capacity = \<lparr>buffer = [], length_sb = 0, capacity = initial_capacity\<rparr>"

text \<open>
  The loop \<^verbatim>\<open>while (new_capacity < need) new_capacity *= 2\<close>. It starts from 64 or from
  twice a positive capacity; the test \<open>0 < new_capacity\<close> makes the function total.
\<close>
function grow_capacity :: "nat \<Rightarrow> nat \<Rightarrow> nat" where
  "grow_capacity new_capacity need =
     (if new_capacity < need \<and> 0 < new_capacity then grow_capacity (new_capacity * 2) need
      else new_capacity)"
  by pat_completeness auto
termination
  by (relation "measure (\<lambda>(c, n). n - c)") auto

declare grow_capacity.simps [simp del]

definition strbuf_append :: "strbuf \<Rightarrow> string \<Rightarrow> nat \<Rightarrow> strbuf" where
  "strbuf_append sb data len =
     (let cap = (if length_sb sb + len + 1 > capacity sb
                 then grow_capacity (if capacity sb = 0 then 64 else capacity sb * 2)
                        (length_sb sb + len + 1)
                 else capacity sb)
      in \<lparr>buffer = buffer sb @ take len data, length_sb = length_sb sb + len, capacity = cap\<rparr>)"

text \<open>\<^verbatim>\<open>snprintf(hex_buf, sizeof(hex_buf), "\\u%04x", (unsigned char)c)\<close>\<close>
definition hex_digit :: "nat \<Rightarrow> char" where
  "hex_digit d = ''0123456789abcdef'' ! d"

definition u_escape :: "nat \<Rightarrow> string" where
  "u_escape n =
     [CHR 0x5C, CHR ''u'', hex_digit (n div 4096 mod 16), hex_digit (n div 256 mod 16),
      hex_digit (n div 16 mod 16), hex_digit (n mod 16)]"

text \<open>The \<^verbatim>\<open>switch\<close> of \<^verbatim>\<open>escape_string\<close>: the replacement of a byte, \<open>None\<close> for NULL.\<close>
definition replacement :: "char \<Rightarrow> string option" where
  "replacement c =
     (if c = CHR 0x22 then Some [CHR 0x5C, CHR 0x22]
      else if c = CHR 0x5C then Some [CHR 0x5C, CHR 0x5C]
      else if c = CHR 0x08 then Some [CHR 0x5C, CHR ''b'']
      else if c = CHR 0x0C then Some [CHR 0x5C, CHR ''f'']
      else if c = CHR 0x0A then Some [CHR 0x5C, CHR ''n'']
      else if c = CHR 0x0D then Some [CHR 0x5C, CHR ''r'']
      else if c = CHR 0x09 then Some [CHR 0x5C, CHR ''t'']
      else if uc c < 0x20 then Some (u_escape (uc c))
      else None)"

text \<open>
  The loop of \<^verbatim>\<open>escape_string\<close> over the C string \<open>inp\<close>, with the pointers \<open>start\<close> and
  \<open>p\<close> as offsets into it.
\<close>
function escape_loop :: "string \<Rightarrow> nat \<Rightarrow> nat \<Rightarrow> strbuf \<Rightarrow> strbuf" where
  "escape_loop inp start p sb =
     (if p < length inp then
        (case replacement (inp ! p) of
           None \<Rightarrow> escape_loop inp start (p + 1) sb
         | Some rep \<Rightarrow>
             let sb1 = (if p > start then strbuf_append sb (drop start inp) (p - start) else sb);
                 sb2 = strbuf_append sb1 rep (length rep)
             in escape_loop inp (p + 1) (p + 1) sb2)
      else if p > start then strbuf_append sb (drop start inp) (p - start)
      else sb)"
  by pat_completeness auto
termination
  by (relation "measure (\<lambda>(inp, start, p, sb). length inp - p)") auto

declare escape_loop.simps [simp del]

definition escape_string :: "string \<Rightarrow> strbuf \<Rightarrow> strbuf" where
  "escape_string inp sb =
     (let sb0 = strbuf_append sb [CHR 0x22] 1;
          sb1 = escape_loop (cstr inp) 0 0 sb0
      in strbuf_append sb1 [CHR 0x22] 1)"

text \<open>\<^verbatim>\<open>strchr(num_buf, ',')\<close> and the assignment of \<open>'.'\<close> to the first comma.\<close>
fun replace_comma :: "string \<Rightarrow> string" where
  "replace_comma [] = []"
| "replace_comma (c # cs) = (if c = CHR '','' then CHR ''.'' # cs else c # replace_comma cs)"

text \<open>
  \<^verbatim>\<open>serialize_number\<close>: \<open>len\<close> is what \<^verbatim>\<open>snprintf\<close> returns, the length of the complete
  output, of which \<open>num_buf\<close> holds at most 63 bytes. \<open>None\<close> is the return code -1.
\<close>
definition serialize_number :: "libc \<Rightarrow> double \<Rightarrow> strbuf \<Rightarrow> strbuf option" where
  "serialize_number L num sb =
     (if \<not> isfinite num then None
      else
        let out = snprintf_g L 17 num;
            len = length out;
            num_buf = replace_comma (take 63 out)
        in if len \<ge> 64 then None else Some (strbuf_append sb num_buf len))"

fun serialize_value :: "libc \<Rightarrow> rjson_value \<Rightarrow> strbuf \<Rightarrow> nat \<Rightarrow> strbuf option"
  and serialize_array_loop :: "libc \<Rightarrow> rjson_value list \<Rightarrow> nat \<Rightarrow> strbuf \<Rightarrow> nat \<Rightarrow> strbuf option"
  and serialize_object_loop ::
    "libc \<Rightarrow> (string \<times> rjson_value) list \<Rightarrow> nat \<Rightarrow> strbuf \<Rightarrow> nat \<Rightarrow> strbuf option"
where
  "serialize_value L RJSON_NULL sb depth =
     (if depth \<ge> RJSON_MAX_DEPTH then None else Some (strbuf_append sb ''null'' 4))"
| "serialize_value L (RJSON_BOOL bool_val) sb depth =
     (if depth \<ge> RJSON_MAX_DEPTH then None
      else Some (strbuf_append sb (if bool_val \<noteq> 0 then ''true'' else ''false'')
                   (if bool_val \<noteq> 0 then 4 else 5)))"
| "serialize_value L (RJSON_NUMBER num_val) sb depth =
     (if depth \<ge> RJSON_MAX_DEPTH then None else serialize_number L num_val sb)"
| "serialize_value L (RJSON_STRING s) sb depth =
     (if depth \<ge> RJSON_MAX_DEPTH then None else Some (escape_string s sb))"
| "serialize_value L (RJSON_ARRAY elements) sb depth =
     (if depth \<ge> RJSON_MAX_DEPTH then None
      else
        (case serialize_array_loop L elements 0 (strbuf_append sb ''['' 1) depth of
           None \<Rightarrow> None
         | Some sb' \<Rightarrow> Some (strbuf_append sb' '']'' 1)))"
| "serialize_value L (RJSON_OBJECT members) sb depth =
     (if depth \<ge> RJSON_MAX_DEPTH then None
      else
        (case serialize_object_loop L members 0 (strbuf_append sb ''{'' 1) depth of
           None \<Rightarrow> None
         | Some sb' \<Rightarrow> Some (strbuf_append sb' ''}'' 1)))"
| "serialize_array_loop L [] i sb depth = Some sb"
| "serialize_array_loop L (element # elements) i sb depth =
     (let sb1 = (if i > 0 then strbuf_append sb '','' 1 else sb) in
      case serialize_value L element sb1 (depth + 1) of
        None \<Rightarrow> None
      | Some sb2 \<Rightarrow> serialize_array_loop L elements (i + 1) sb2 depth)"
| "serialize_object_loop L [] i sb depth = Some sb"
| "serialize_object_loop L ((k, v) # members) i sb depth =
     (let sb1 = (if i > 0 then strbuf_append sb '','' 1 else sb);
          sb2 = strbuf_append (escape_string k sb1) '':'' 1
      in case serialize_value L v sb2 (depth + 1) of
           None \<Rightarrow> None
         | Some sb3 \<Rightarrow> serialize_object_loop L members (i + 1) sb3 depth)"

text \<open>
  \<^verbatim>\<open>rjson_serialize(value, out_string, out_length)\<close>. \<open>value\<close> is \<open>None\<close> for NULL. The
  caller's variables behind the two pointers are passed in and returned: \<open>out_string\<close>
  is \<open>None\<close> for a NULL pointer and \<open>Some x\<close> for a pointer to a \<^verbatim>\<open>char *\<close> that holds \<open>x\<close>
  (\<open>None\<close> for NULL, \<open>Some b\<close> for a buffer of content \<open>b\<close>); \<open>out_length\<close> likewise. The
  result is the return code with the two variables after the call.
\<close>
definition rjson_serialize ::
  "libc \<Rightarrow> rjson_value option \<Rightarrow> string option option \<Rightarrow> nat option
    \<Rightarrow> int \<times> string option option \<times> nat option" where
  "rjson_serialize L v out_string out_length =
     (case v of
        None \<Rightarrow> (-1, out_string, out_length)
      | Some root \<Rightarrow>
          if out_string = None then (-1, out_string, out_length)
          else
            (case serialize_value L root (strbuf_init 1024) 0 of
               None \<Rightarrow> (-1, out_string, out_length)
             | Some sb \<Rightarrow>
                 (0, Some (Some (buffer sb)),
                  (if out_length \<noteq> None then Some (length_sb sb) else out_length))))"

subsection \<open>5. A reference C library\<close>

text \<open>
  \<^verbatim>\<open>strtod\<close> and \<^verbatim>\<open>printf("%.Pg")\<close> in the C locale on IEEE-754 binary64, both correctly
  rounded (to nearest, ties to even). The value of a decimal numeral is the ratio of two
  integers; it is rounded to 53 significant bits. \<^verbatim>\<open>strtod\<close> reports \<^verbatim>\<open>ERANGE\<close> where the
  result overflows, and where the result is zero or subnormal and not exact. This is a
  stand-in for a C library, not code of the repository; glibc reports \<^verbatim>\<open>ERANGE\<close> in these
  cases, and also for some values below the smallest normal number that round up to it,
  where this library does not. The released block is taken to keep its bytes.
\<close>

fun digits_value :: "int \<Rightarrow> string \<Rightarrow> int" where
  "digits_value acc [] = acc"
| "digits_value acc (c # cs) = digits_value (10 * acc + (int (uc c) - 48)) cs"

function bitlen :: "int \<Rightarrow> int" where
  "bitlen n = (if n \<le> 0 then 0 else 1 + bitlen (n div 2))"
  by pat_completeness auto
termination
  by (relation "measure nat") auto

declare bitlen.simps [simp del]

text \<open>\<open>floor (log2 (N / D))\<close> for positive \<open>N\<close> and \<open>D\<close>; \<open>k\<close> is within one of it.\<close>
definition log2_adjust :: "int \<Rightarrow> int \<Rightarrow> int \<Rightarrow> int" where
  "log2_adjust N D k = (if D * 2 ^ nat k \<le> N * 2 ^ nat (- k) then k else k - 1)"

definition floor_log2 :: "int \<Rightarrow> int \<Rightarrow> int" where
  "floor_log2 N D = log2_adjust N D (bitlen N - bitlen D)"

definition half_even :: "int \<Rightarrow> int \<Rightarrow> int \<Rightarrow> int" where
  "half_even q r den = (if den < 2 * r \<or> (2 * r = den \<and> odd q) then q + 1 else q)"

definition round_half_even :: "int \<Rightarrow> int \<Rightarrow> int" where
  "round_half_even num den = half_even (num div den) (num mod den) den"

definition sign_bit :: "bool \<Rightarrow> double" where
  "sign_bit neg = (if neg then 0x8000000000000000 else 0)"

text \<open>
  The bit pattern of \<open>m * 2 ^ e\<close>, where \<open>m < 2 ^ 53\<close>, \<open>e \<ge> -1074\<close>, and \<open>m < 2 ^ 52\<close> only
  at \<open>e = -1074\<close> (a subnormal number or zero); infinity and \<^verbatim>\<open>ERANGE\<close> above the largest
  finite number; \<^verbatim>\<open>ERANGE\<close> for a subnormal or zero result that is not exact.
\<close>
definition pack_binary64 :: "bool \<Rightarrow> int \<Rightarrow> int \<Rightarrow> bool \<Rightarrow> double \<times> bool" where
  "pack_binary64 neg m e inexact =
     (if e > 971 then (sign_bit neg OR 0x7FF0000000000000, True)
      else if m < 2 ^ 52 then (sign_bit neg OR of_int m, inexact)
      else (sign_bit neg OR push_bit 52 (of_int (e + 1075)) OR of_int (m - 2 ^ 52), False))"

definition normalise_binary64 :: "bool \<Rightarrow> int \<Rightarrow> int \<Rightarrow> bool \<Rightarrow> double \<times> bool" where
  "normalise_binary64 neg m e inexact =
     (if m = 2 ^ 53 then pack_binary64 neg (2 ^ 52) (e + 1) inexact
      else pack_binary64 neg m e inexact)"

definition round_binary64 :: "bool \<Rightarrow> int \<Rightarrow> int \<Rightarrow> int \<Rightarrow> double \<times> bool" where
  "round_binary64 neg num den e =
     normalise_binary64 neg (round_half_even num den) e (num mod den \<noteq> 0)"

definition scale_binary64 :: "bool \<Rightarrow> int \<Rightarrow> int \<Rightarrow> int \<Rightarrow> double \<times> bool" where
  "scale_binary64 neg N D e = round_binary64 neg (N * 2 ^ nat (- e)) (D * 2 ^ nat e) e"

definition binary64_of_ratio :: "bool \<Rightarrow> int \<Rightarrow> int \<Rightarrow> double \<times> bool" where
  "binary64_of_ratio neg N D =
     (if N = 0 then (sign_bit neg, False)
      else scale_binary64 neg N D (max (floor_log2 N D - 52) (- 1074)))"


text \<open>
  The subject sequence is the longest prefix of the form of a decimal floating constant
  with an optional sign. Hexadecimal constants, \<^verbatim>\<open>INF\<close> and \<^verbatim>\<open>NAN\<close> are not recognised,
  and no white space is skipped: \<^verbatim>\<open>parse_number\<close> calls \<^verbatim>\<open>strtod\<close> at a sign or a digit.
\<close>
definition ref_strtod :: "string \<Rightarrow> double \<times> nat \<times> bool" where
  "ref_strtod s =
     (let neg = (peek s = CHR ''-'');
          s1 = (if peek s = CHR ''-'' \<or> peek s = CHR ''+'' then tl s else s);
          ip = takeWhile isdigit s1;
          s2 = dropWhile isdigit s1;
          fp = (if peek s2 = CHR ''.'' then takeWhile isdigit (tl s2) else []);
          s3 = (if peek s2 = CHR ''.'' \<and> (ip \<noteq> [] \<or> fp \<noteq> []) then dropWhile isdigit (tl s2) else s2);
          s4 = (if peek s3 = CHR ''e'' \<or> peek s3 = CHR ''E'' then tl s3 else s3);
          eneg = (peek s4 = CHR ''-'');
          s5 = (if peek s4 = CHR ''-'' \<or> peek s4 = CHR ''+'' then tl s4 else s4);
          ed = takeWhile isdigit s5;
          has_exp = ((peek s3 = CHR ''e'' \<or> peek s3 = CHR ''E'') \<and> ed \<noteq> []);
          rest = (if has_exp then dropWhile isdigit s5 else s3);
          ex = (if has_exp then (if eneg then - digits_value 0 ed else digits_value 0 ed) else 0);
          M = digits_value 0 (ip @ fp);
          E10 = ex - int (length fp);
          (x, erange) = binary64_of_ratio neg (M * 10 ^ nat E10) (10 ^ nat (- E10))
      in if ip = [] \<and> fp = [] then (0, 0, False) else (x, length s - length rest, erange))"



text \<open>
  \<^verbatim>\<open>printf("%.Pg")\<close>: the \<open>P\<close> significant digits of the value rounded half-even, with
  its decimal exponent \<open>X\<close>; style e when \<open>X < -4\<close> or \<open>X \<ge> P\<close>, style f otherwise;
  trailing zeros of the fraction removed.
\<close>

function dec_up :: "int \<Rightarrow> int \<Rightarrow> int" where
  "dec_up num den = (if 0 < den \<and> den * 10 \<le> num then 1 + dec_up num (den * 10) else 0)"
  by pat_completeness auto
termination
  by (relation "measure (\<lambda>(num, den). nat (num - den))") auto

function dec_down :: "int \<Rightarrow> int \<Rightarrow> int" where
  "dec_down num den = (if 0 < num \<and> num < den then 1 + dec_down (num * 10) den else 0)"
  by pat_completeness auto
termination
  by (relation "measure (\<lambda>(num, den). nat (den - num))") auto

declare dec_up.simps [simp del] dec_down.simps [simp del]

text \<open>\<open>floor (log10 (num / den))\<close> for positive \<open>num\<close> and \<open>den\<close>.\<close>
definition decimal_exponent :: "int \<Rightarrow> int \<Rightarrow> int" where
  "decimal_exponent num den = (if den \<le> num then dec_up num den else - dec_down num den)"

definition digit_char :: "int \<Rightarrow> char" where
  "digit_char d = ''0123456789'' ! nat d"

function dec_digits :: "int \<Rightarrow> int \<Rightarrow> string" where
  "dec_digits k n = (if k \<le> 0 then [] else dec_digits (k - 1) (n div 10) @ [digit_char (n mod 10)])"
  by pat_completeness auto
termination
  by (relation "measure (\<lambda>(k, n). nat k)") auto

declare dec_digits.simps [simp del]

definition strip_zeros :: "string \<Rightarrow> string" where
  "strip_zeros ds = rev (dropWhile (\<lambda>c. c = CHR ''0'') (rev ds))"

definition with_point :: "string \<Rightarrow> string \<Rightarrow> string" where
  "with_point ip fr = (if fr = [] then ip else ip @ ''.'' @ fr)"

definition exponent_text :: "int \<Rightarrow> string" where
  "exponent_text X =
     (if X < 0 then ''e-'' else ''e+'') @
     (if \<bar>X\<bar> < 10 then dec_digits 2 \<bar>X\<bar> else if \<bar>X\<bar> < 100 then dec_digits 2 \<bar>X\<bar> else dec_digits 3 \<bar>X\<bar>)"

definition g_style :: "int \<Rightarrow> string \<Rightarrow> int \<Rightarrow> string" where
  "g_style P ds X =
     (if X < - 4 \<or> P \<le> X then
        with_point [hd ds] (strip_zeros (tl ds)) @ exponent_text X
      else if 0 \<le> X then
        with_point (take (nat X + 1) ds) (strip_zeros (drop (nat X + 1) ds))
      else with_point ''0'' (strip_zeros (take (nat (- X - 1)) ''0000'' @ ds)))"

definition g_digits :: "int \<Rightarrow> int \<Rightarrow> int \<Rightarrow> string" where
  "g_digits P q X =
     (if q = 10 ^ nat P then g_style P (dec_digits P (10 ^ nat (P - 1))) (X + 1)
      else g_style P (dec_digits P q) X)"

definition g_round :: "int \<Rightarrow> int \<Rightarrow> int \<Rightarrow> int \<Rightarrow> string" where
  "g_round P num den X =
     g_digits P (round_half_even (num * 10 ^ nat (P - 1 - X)) (den * 10 ^ nat (X - (P - 1)))) X"

definition g_finite :: "int \<Rightarrow> int \<Rightarrow> int \<Rightarrow> string" where
  "g_finite P m e = g_round P (m * 2 ^ nat e) (2 ^ nat (- e)) (decimal_exponent (m * 2 ^ nat e) (2 ^ nat (- e)))"

definition ref_snprintf_g :: "nat \<Rightarrow> double \<Rightarrow> string" where
  "ref_snprintf_g prec x =
     (let P = (if prec = 0 then 1 else int prec);
          be = uint (drop_bit 52 x AND 0x7FF);
          frac = uint (x AND 0xFFFFFFFFFFFFF);
          sgn = (if bit x 63 then ''-'' else [])
      in if be = 0x7FF then sgn @ (if frac = 0 then ''inf'' else ''nan'')
         else if be = 0 \<and> frac = 0 then sgn @ ''0''
         else if be = 0 then sgn @ g_finite P frac (- 1074)
         else sgn @ g_finite P (frac + 2 ^ 52) (be - 1075))"


definition ref_libc :: libc where
  "ref_libc =
     \<lparr>strtod = ref_strtod, snprintf_g = ref_snprintf_g, stale_byte = (\<lambda>s i. peek (drop i s))\<rparr>"

text \<open>
  ISO C leaves it to the implementation whether \<^verbatim>\<open>strtod\<close> sets \<^verbatim>\<open>errno\<close> when the result
  underflows. \<open>ref_libc\<close> sets it for a zero or subnormal result that is not exact, as glibc
  does; \<open>ref_libc_quiet\<close> is the same library with \<^verbatim>\<open>ERANGE\<close> on overflow only.
\<close>
definition ref_strtod_quiet :: "string \<Rightarrow> double \<times> nat \<times> bool" where
  "ref_strtod_quiet s =
     (case ref_strtod s of (x, n, erange) \<Rightarrow> (x, n, erange \<and> \<not> isfinite x))"

definition ref_libc_quiet :: libc where
  "ref_libc_quiet =
     \<lparr>strtod = ref_strtod_quiet, snprintf_g = ref_snprintf_g,
      stale_byte = (\<lambda>s i. peek (drop i s))\<rparr>"

subsection \<open>6. Definitions that follow the words of the specification\<close>

text \<open>
  The escape table of the encoder as the specification gives it, byte by byte: the
  two-character escapes, \<^verbatim>\<open>\u00XX\<close> with lowercase hexadecimal digits for the other
  bytes below 0x20, every other byte verbatim.
\<close>
definition lower_hex :: "nat \<Rightarrow> char" where
  "lower_hex d = ''0123456789abcdef'' ! d"

definition escape_table :: "char \<Rightarrow> string" where
  "escape_table c =
     (if c = CHR 0x22 then [CHR 0x5C, CHR 0x22]
      else if c = CHR 0x5C then [CHR 0x5C, CHR 0x5C]
      else if c = CHR 0x08 then [CHR 0x5C, CHR ''b'']
      else if c = CHR 0x0C then [CHR 0x5C, CHR ''f'']
      else if c = CHR 0x0A then [CHR 0x5C, CHR ''n'']
      else if c = CHR 0x0D then [CHR 0x5C, CHR ''r'']
      else if c = CHR 0x09 then [CHR 0x5C, CHR ''t'']
      else if uc c < 0x20 then
        [CHR 0x5C, CHR ''u'', CHR ''0'', CHR ''0'', lower_hex (uc c div 16), lower_hex (uc c mod 16)]
      else [c])"

text \<open>
  The structural nesting of a value: the greatest number of arrays and objects that
  contain one another in it.
\<close>
fun nesting :: "rjson_value \<Rightarrow> nat"
  and nesting_list :: "rjson_value list \<Rightarrow> nat"
  and nesting_members :: "(string \<times> rjson_value) list \<Rightarrow> nat"
where
  "nesting RJSON_NULL = 0"
| "nesting (RJSON_BOOL b) = 0"
| "nesting (RJSON_NUMBER x) = 0"
| "nesting (RJSON_STRING s) = 0"
| "nesting (RJSON_ARRAY elements) = Suc (nesting_list elements)"
| "nesting (RJSON_OBJECT members) = Suc (nesting_members members)"
| "nesting_list [] = 0"
| "nesting_list (e # es) = max (nesting e) (nesting_list es)"
| "nesting_members [] = 0"
| "nesting_members ((k, v) # ms) = max (nesting v) (nesting_members ms)"

text \<open>\<open>n + 1\<close> arrays, each the only element of the one around it.\<close>
fun nested_arrays :: "nat \<Rightarrow> rjson_value" where
  "nested_arrays 0 = RJSON_ARRAY []"
| "nested_arrays (Suc n) = RJSON_ARRAY [nested_arrays n]"

text \<open>The Number payloads of a value, in the order of the encoder's walk.\<close>
fun numbers_of :: "rjson_value \<Rightarrow> double list"
  and numbers_of_list :: "rjson_value list \<Rightarrow> double list"
  and numbers_of_members :: "(string \<times> rjson_value) list \<Rightarrow> double list"
where
  "numbers_of RJSON_NULL = []"
| "numbers_of (RJSON_BOOL b) = []"
| "numbers_of (RJSON_NUMBER x) = [x]"
| "numbers_of (RJSON_STRING s) = []"
| "numbers_of (RJSON_ARRAY elements) = numbers_of_list elements"
| "numbers_of (RJSON_OBJECT members) = numbers_of_members members"
| "numbers_of_list [] = []"
| "numbers_of_list (e # es) = numbers_of e @ numbers_of_list es"
| "numbers_of_members [] = []"
| "numbers_of_members ((k, v) # ms) = numbers_of v @ numbers_of_members ms"

text \<open>A value that contains a Number payload that is not finite (a NaN or an infinity).\<close>
definition contains_nonfinite :: "rjson_value \<Rightarrow> bool" where
  "contains_nonfinite v = (\<exists>x \<in> set (numbers_of v). \<not> isfinite x)"

text \<open>\<open>n\<close> arrays around \<open>v\<close>, each the only element of the one around it.\<close>
fun wrap_arrays :: "nat \<Rightarrow> rjson_value \<Rightarrow> rjson_value" where
  "wrap_arrays 0 v = v"
| "wrap_arrays (Suc n) v = RJSON_ARRAY [wrap_arrays n v]"

text \<open>
  The values the decoder builds: a boolean holds 0 or 1, and no string and no key
  contains a NUL byte.
\<close>
fun decoded :: "rjson_value \<Rightarrow> bool"
  and decoded_list :: "rjson_value list \<Rightarrow> bool"
  and decoded_members :: "(string \<times> rjson_value) list \<Rightarrow> bool"
where
  "decoded RJSON_NULL = True"
| "decoded (RJSON_BOOL b) = (b = 0 \<or> b = 1)"
| "decoded (RJSON_NUMBER x) = True"
| "decoded (RJSON_STRING s) = (NUL \<notin> set s)"
| "decoded (RJSON_ARRAY elements) = decoded_list elements"
| "decoded (RJSON_OBJECT members) = decoded_members members"
| "decoded_list [] = True"
| "decoded_list (e # es) = (decoded e \<and> decoded_list es)"
| "decoded_members [] = True"
| "decoded_members ((k, v) # ms) = (NUL \<notin> set k \<and> decoded v \<and> decoded_members ms)"

text \<open>
  The bytes that can follow a value in the output of the encoder: the end of the string,
  a comma, a closing bracket, a closing brace.
\<close>
definition delimiter :: "char \<Rightarrow> bool" where
  "delimiter c = (c = NUL \<or> c = CHR '','' \<or> c = CHR '']'' \<or> c = CHR ''}'')"


text \<open>
  The number of values on the longest path from a value down into it: 1 for a scalar
  and for an empty array or object.
\<close>
fun levels :: "rjson_value \<Rightarrow> nat"
  and levels_list :: "rjson_value list \<Rightarrow> nat"
  and levels_members :: "(string \<times> rjson_value) list \<Rightarrow> nat"
where
  "levels RJSON_NULL = 1"
| "levels (RJSON_BOOL b) = 1"
| "levels (RJSON_NUMBER x) = 1"
| "levels (RJSON_STRING s) = 1"
| "levels (RJSON_ARRAY elements) = Suc (levels_list elements)"
| "levels (RJSON_OBJECT members) = Suc (levels_members members)"
| "levels_list [] = 0"
| "levels_list (e # es) = max (levels e) (levels_list es)"
| "levels_members [] = 0"
| "levels_members ((k, v) # ms) = max (levels v) (levels_members ms)"


subsection \<open>7. The memory layer: the heap, the allocator, the mutators and the release\<close>

text \<open>
  The heap maps an address to the block allocated there; address 0 is NULL. A block is
  an \<^verbatim>\<open>rjson_value\<close> struct (its tag with the member of the union the tag selects; after
  \<^verbatim>\<open>calloc\<close> every member is zero), a character buffer holding a C string, or an array of
  pointers, of which a slot that was never written is \<open>None\<close>. Addresses are never
  reused, so a pointer to a released block stays recognisable.

  The allocator takes its decisions from a list, one for each call of \<^verbatim>\<open>malloc\<close>,
  \<^verbatim>\<open>calloc\<close> or \<^verbatim>\<open>realloc\<close> (on a non-NULL pointer), and succeeds in place when the list is
  used up. \<^verbatim>\<open>realloc\<close> may refuse and leave the block alone (\<open>Fail\<close>), resize the block
  where it is (\<open>Stay\<close>), or move it to a new address and release the old one (\<open>Move\<close>); for
  the size 0 it may also release the block and return NULL, as glibc does (\<open>Release\<close>;
  for another size this decision is a refusal).
  A release or a resize of an address that holds no block, and a read through a pointer
  to no block (or to a block of another kind), is undefined behaviour: the call returns
  the fault.
\<close>
type_synonym addr = nat

datatype cell =
    Val_null
  | Val_bool int
  | Val_number double
  | Val_string addr
  | Val_array addr nat
  | Val_object addr addr nat
  | Chars string
  | Ptrs "addr option list"

datatype decision = Fail | Stay | Move | Release

datatype fault = Invalid_free addr | Invalid_read addr | Out_of_fuel

record mem =
  cells :: "addr \<Rightarrow> cell option"
  next_addr :: addr
  decisions :: "decision list"

definition next_decision :: "mem \<Rightarrow> decision \<times> mem" where
  "next_decision m = (case decisions m of [] \<Rightarrow> (Stay, m) | d # ds \<Rightarrow> (d, m\<lparr>decisions := ds\<rparr>))"

text \<open>A new block of content \<open>c\<close> at a fresh address.\<close>
definition new_block :: "cell \<Rightarrow> mem \<Rightarrow> addr \<times> mem" where
  "new_block c m =
     (next_addr m, m\<lparr>cells := (cells m)(next_addr m \<mapsto> c), next_addr := Suc (next_addr m)\<rparr>)"

text \<open>\<^verbatim>\<open>malloc\<close> and \<^verbatim>\<open>calloc\<close>, with the content the block is given: NULL on failure.\<close>
definition alloc :: "cell \<Rightarrow> mem \<Rightarrow> addr \<times> mem" where
  "alloc c m = (case next_decision m of (Fail, m') \<Rightarrow> (0, m') | (d, m') \<Rightarrow> new_block c m')"

definition free_mem :: "addr \<Rightarrow> mem \<Rightarrow> fault + mem" where
  "free_mem p m =
     (if p = 0 then Inr m
      else if cells m p = None then Inl (Invalid_free p)
      else Inr (m\<lparr>cells := (cells m)(p := None)\<rparr>))"

definition resize :: "nat \<Rightarrow> addr option list \<Rightarrow> addr option list" where
  "resize n ps = take n ps @ replicate (n - length ps) None"

text \<open>\<^verbatim>\<open>realloc(p, n * sizeof(void *))\<close> on an array of pointers.\<close>
definition realloc_ptrs :: "addr \<Rightarrow> nat \<Rightarrow> mem \<Rightarrow> fault + addr \<times> mem" where
  "realloc_ptrs p n m =
     (if p = 0 then Inr (alloc (Ptrs (resize n [])) m)
      else
        (case cells m p of
           Some (Ptrs ps) \<Rightarrow>
             (case next_decision m of
                (Fail, m') \<Rightarrow> Inr (0, m')
              | (Stay, m') \<Rightarrow> Inr (p, m'\<lparr>cells := (cells m')(p \<mapsto> Ptrs (resize n ps))\<rparr>)
              | (Move, m') \<Rightarrow>
                  Inr (new_block (Ptrs (resize n ps)) (m'\<lparr>cells := (cells m')(p := None)\<rparr>))
              | (Release, m') \<Rightarrow>
                  if n = 0 then Inr (0, m'\<lparr>cells := (cells m')(p := None)\<rparr>) else Inr (0, m'))
         | _ \<Rightarrow> Inl (Invalid_free p)))"

text \<open>\<open>a[i] = v\<close> on an array of pointers.\<close>
definition store_ptr :: "addr \<Rightarrow> nat \<Rightarrow> addr \<Rightarrow> mem \<Rightarrow> fault + mem" where
  "store_ptr a i v m =
     (case cells m a of
        Some (Ptrs ps) \<Rightarrow>
          if i < length ps then Inr (m\<lparr>cells := (cells m)(a \<mapsto> Ptrs (ps[i := Some v]))\<rparr>)
          else Inl (Invalid_read a)
      | _ \<Rightarrow> Inl (Invalid_read a))"

text \<open>\<open>a[i]\<close> on an array of pointers.\<close>
definition load_ptr :: "addr \<Rightarrow> nat \<Rightarrow> mem \<Rightarrow> fault + addr" where
  "load_ptr a i m =
     (case cells m a of
        Some (Ptrs ps) \<Rightarrow>
          if i < length ps then (case ps ! i of Some v \<Rightarrow> Inr v | None \<Rightarrow> Inl (Invalid_read a))
          else Inl (Invalid_read a)
      | _ \<Rightarrow> Inl (Invalid_read a))"

datatype rjson_type = TYPE_NULL | TYPE_BOOL | TYPE_NUMBER | TYPE_STRING | TYPE_ARRAY | TYPE_OBJECT

text \<open>\<open>v->type\<close>, where a value struct lives at \<open>v\<close>.\<close>
definition type_at :: "mem \<Rightarrow> addr \<Rightarrow> rjson_type option" where
  "type_at m v =
     (case cells m v of
        Some Val_null \<Rightarrow> Some TYPE_NULL
      | Some (Val_bool b) \<Rightarrow> Some TYPE_BOOL
      | Some (Val_number x) \<Rightarrow> Some TYPE_NUMBER
      | Some (Val_string s) \<Rightarrow> Some TYPE_STRING
      | Some (Val_array elements count) \<Rightarrow> Some TYPE_ARRAY
      | Some (Val_object keys vals count) \<Rightarrow> Some TYPE_OBJECT
      | _ \<Rightarrow> None)"

text \<open>\<^verbatim>\<open>create_value\<close>: \<^verbatim>\<open>calloc\<close> and the tag.\<close>
definition create_value_mem :: "rjson_type \<Rightarrow> mem \<Rightarrow> addr \<times> mem" where
  "create_value_mem t m =
     alloc (case t of
              TYPE_NULL \<Rightarrow> Val_null
            | TYPE_BOOL \<Rightarrow> Val_bool 0
            | TYPE_NUMBER \<Rightarrow> Val_number 0
            | TYPE_STRING \<Rightarrow> Val_string 0
            | TYPE_ARRAY \<Rightarrow> Val_array 0 0
            | TYPE_OBJECT \<Rightarrow> Val_object 0 0 0) m"

definition rjson_array_new_mem :: "mem \<Rightarrow> addr \<times> mem" where
  "rjson_array_new_mem m = create_value_mem TYPE_ARRAY m"

definition rjson_object_new_mem :: "mem \<Rightarrow> addr \<times> mem" where
  "rjson_object_new_mem m = create_value_mem TYPE_OBJECT m"

definition rjson_null_new_mem :: "mem \<Rightarrow> addr \<times> mem" where
  "rjson_null_new_mem m = create_value_mem TYPE_NULL m"

text \<open>\<^verbatim>\<open>rjson_string_new\<close>: the struct, then the copy of the C string.\<close>
definition rjson_string_new_mem :: "string \<Rightarrow> mem \<Rightarrow> fault + addr \<times> mem" where
  "rjson_string_new_mem str m =
     (case create_value_mem TYPE_STRING m of
        (v, m1) \<Rightarrow>
          if v = 0 then Inr (0, m1)
          else
            (case alloc (Chars (cstr str)) m1 of
               (s, m2) \<Rightarrow>
                 if s = 0 then
                   (case free_mem v m2 of Inl f \<Rightarrow> Inl f | Inr m3 \<Rightarrow> Inr (0, m3))
                 else Inr (v, m2\<lparr>cells := (cells m2)(v \<mapsto> Val_string s)\<rparr>)))"


text \<open>
  \<^verbatim>\<open>rjson_object_add\<close>; \<open>key\<close> is \<open>None\<close> for NULL. Where the second \<^verbatim>\<open>realloc\<close> fails, the
  field \<open>keys\<close> already holds \<open>new_keys\<close>, and the result of the \<^verbatim>\<open>realloc\<close> that shrinks the
  block again is dropped.
\<close>
definition rjson_object_add_mem ::
  "addr \<Rightarrow> string option \<Rightarrow> addr \<Rightarrow> mem \<Rightarrow> fault + int \<times> mem" where
  "rjson_object_add_mem object key v m =
     (if object = 0 then Inr (- 1, m)
      else
        (case cells m object of
           None \<Rightarrow> Inl (Invalid_read object)
         | Some (Chars s) \<Rightarrow> Inl (Invalid_read object)
         | Some (Ptrs ps) \<Rightarrow> Inl (Invalid_read object)
         | Some (Val_object keys vals count) \<Rightarrow>
             (case key of
                None \<Rightarrow> Inr (- 1, m)
              | Some k \<Rightarrow>
                  if v = 0 then Inr (- 1, m)
                  else
                    (case alloc (Chars (cstr k)) m of
                       (new_key, m1) \<Rightarrow>
                         if new_key = 0 then Inr (- 1, m1)
                         else
                           (let new_count = count + 1 in
                            case realloc_ptrs keys new_count m1 of
                              Inl f \<Rightarrow> Inl f
                            | Inr (new_keys, m2) \<Rightarrow>
                                if new_keys = 0 then
                                  (case free_mem new_key m2 of
                                     Inl f \<Rightarrow> Inl f
                                   | Inr m3 \<Rightarrow> Inr (- 1, m3))
                                else
                                  (let m3 = m2\<lparr>cells :=
                                              (cells m2)(object \<mapsto> Val_object new_keys vals count)\<rparr>
                                   in case realloc_ptrs vals new_count m3 of
                                        Inl f \<Rightarrow> Inl f
                                      | Inr (new_values, m4) \<Rightarrow>
                                          if new_values = 0 then
                                            (case realloc_ptrs new_keys (new_count - 1) m4 of
                                               Inl f \<Rightarrow> Inl f
                                             | Inr (dropped, m5) \<Rightarrow>
                                                 (case free_mem new_key m5 of
                                                    Inl f \<Rightarrow> Inl f
                                                  | Inr m6 \<Rightarrow> Inr (- 1, m6)))
                                          else
                                            (case store_ptr new_keys (new_count - 1) new_key m4 of
                                               Inl f \<Rightarrow> Inl f
                                             | Inr m5 \<Rightarrow>
                                                 (case store_ptr new_values (new_count - 1) v m5 of
                                                    Inl f \<Rightarrow> Inl f
                                                  | Inr m6 \<Rightarrow>
                                                      Inr (0, m6\<lparr>cells :=
                                                             (cells m6)(object \<mapsto>
                                                               Val_object new_keys new_values
                                                                 new_count)\<rparr>)))))))
         | Some other \<Rightarrow> Inr (- 1, m)))"

text \<open>
  \<^verbatim>\<open>rjson_free\<close>. The recursion follows the pointers of the heap, which may form a cycle
  in a heap that no sequence of calls builds: the first argument bounds the depth of
  the recursion, and \<open>Out_of_fuel\<close> is returned where it is used up. The two loops run
  over the indices from \<open>i\<close> to \<open>count\<close>.
\<close>
fun rjson_free_mem :: "nat \<Rightarrow> addr \<Rightarrow> mem \<Rightarrow> fault + mem"
  and free_elements_mem :: "nat \<Rightarrow> addr \<Rightarrow> nat \<Rightarrow> nat \<Rightarrow> mem \<Rightarrow> fault + mem"
  and free_members_mem :: "nat \<Rightarrow> addr \<Rightarrow> addr \<Rightarrow> nat \<Rightarrow> nat \<Rightarrow> mem \<Rightarrow> fault + mem"
where
  "rjson_free_mem 0 v m = Inl Out_of_fuel"
| "rjson_free_mem (Suc fuel) v m =
     (if v = 0 then Inr m
      else
        (case cells m v of
           None \<Rightarrow> Inl (Invalid_read v)
         | Some (Chars s) \<Rightarrow> Inl (Invalid_read v)
         | Some (Ptrs ps) \<Rightarrow> Inl (Invalid_read v)
         | Some (Val_string s) \<Rightarrow>
             (case free_mem s m of Inl f \<Rightarrow> Inl f | Inr m1 \<Rightarrow> free_mem v m1)
         | Some (Val_array elements count) \<Rightarrow>
             (case free_elements_mem fuel elements count count m of
                Inl f \<Rightarrow> Inl f
              | Inr m1 \<Rightarrow>
                  (case free_mem elements m1 of Inl f \<Rightarrow> Inl f | Inr m2 \<Rightarrow> free_mem v m2))
         | Some (Val_object keys vals count) \<Rightarrow>
             (case free_members_mem fuel keys vals count count m of
                Inl f \<Rightarrow> Inl f
              | Inr m1 \<Rightarrow>
                  (case free_mem keys m1 of
                     Inl f \<Rightarrow> Inl f
                   | Inr m2 \<Rightarrow>
                       (case free_mem vals m2 of Inl f \<Rightarrow> Inl f | Inr m3 \<Rightarrow> free_mem v m3)))
         | Some other \<Rightarrow> free_mem v m))"
| "free_elements_mem fuel elements count 0 m = Inr m"
| "free_elements_mem fuel elements count (Suc left) m =
     (case load_ptr elements (count - Suc left) m of
        Inl f \<Rightarrow> Inl f
      | Inr e \<Rightarrow>
          (case rjson_free_mem fuel e m of
             Inl f \<Rightarrow> Inl f
           | Inr m1 \<Rightarrow> free_elements_mem fuel elements count left m1))"
| "free_members_mem fuel keys vals count 0 m = Inr m"
| "free_members_mem fuel keys vals count (Suc left) m =
     (case load_ptr keys (count - Suc left) m of
        Inl f \<Rightarrow> Inl f
      | Inr k \<Rightarrow>
          (case free_mem k m of
             Inl f \<Rightarrow> Inl f
           | Inr m1 \<Rightarrow>
               (case load_ptr vals (count - Suc left) m1 of
                  Inl f \<Rightarrow> Inl f
                | Inr e \<Rightarrow>
                    (case rjson_free_mem fuel e m1 of
                       Inl f \<Rightarrow> Inl f
                     | Inr m2 \<Rightarrow> free_members_mem fuel keys vals count left m2))))"

text \<open>
  The end of one round of the loop of \<^verbatim>\<open>parse_object\<close>, from the call of
  \<^verbatim>\<open>rjson_object_add\<close> on: with the key and the value parsed, the member is added and the
  temporary key value released; where the addition fails, the key value, the value and
  the object are released and the decoder returns NULL. The result is whether the
  round went on (\<open>True\<close>) or the decoder failed (\<open>False\<close>), with the memory it leaves.
\<close>
definition parse_object_add_mem :: "nat \<Rightarrow> addr \<Rightarrow> addr \<Rightarrow> addr \<Rightarrow> mem \<Rightarrow> fault + bool \<times> mem" where
  "parse_object_add_mem fuel obj_val key_val v m =
     (case cells m key_val of
        Some (Val_string str) \<Rightarrow>
          (case cells m str of
             Some (Chars k) \<Rightarrow>
               (case rjson_object_add_mem obj_val (Some k) v m of
                  Inl f \<Rightarrow> Inl f
                | Inr (rc, m1) \<Rightarrow>
                    if rc \<noteq> 0 then
                      (case rjson_free_mem fuel key_val m1 of
                         Inl f \<Rightarrow> Inl f
                       | Inr m2 \<Rightarrow>
                           (case rjson_free_mem fuel v m2 of
                              Inl f \<Rightarrow> Inl f
                            | Inr m3 \<Rightarrow>
                                (case rjson_free_mem fuel obj_val m3 of
                                   Inl f \<Rightarrow> Inl f
                                 | Inr m4 \<Rightarrow> Inr (False, m4))))
                    else
                      (case free_mem str m1 of
                         Inl f \<Rightarrow> Inl f
                       | Inr m2 \<Rightarrow>
                           (case free_mem key_val m2 of
                              Inl f \<Rightarrow> Inl f
                            | Inr m3 \<Rightarrow> Inr (True, m3))))
           | _ \<Rightarrow> Inl (Invalid_read str))
      | _ \<Rightarrow> Inl (Invalid_read key_val))"

text \<open>
  Three memories for the examples. In \<open>empty_array_mem\<close> a caller has built an empty
  array (at 1) and a null value (at 2), in \<open>empty_object_mem\<close> an empty object (at 1) and
  a null value (at 2). In \<open>first_member_mem\<close> the decoder has read \<^verbatim>\<open>{"a":1\<close>: the
  object (at 1), the buffer of the key (at 2) with its string value (at 3), and the number
  (at 4). The argument is the list of the decisions of the allocator from there on.
\<close>
definition empty_array_mem :: "decision list \<Rightarrow> mem" where
  "empty_array_mem ds =
     \<lparr>cells = [1 \<mapsto> Val_array 0 0, 2 \<mapsto> Val_null], next_addr = 3, decisions = ds\<rparr>"

definition empty_object_mem :: "decision list \<Rightarrow> mem" where
  "empty_object_mem ds =
     \<lparr>cells = [1 \<mapsto> Val_object 0 0 0, 2 \<mapsto> Val_null], next_addr = 3, decisions = ds\<rparr>"

definition first_member_mem :: "decision list \<Rightarrow> mem" where
  "first_member_mem ds =
     \<lparr>cells = [1 \<mapsto> Val_object 0 0 0, 2 \<mapsto> Chars ''a'', 3 \<mapsto> Val_string 2,
               4 \<mapsto> Val_number 0x3FF0000000000000],
      next_addr = 5, decisions = ds\<rparr>"

section \<open>Properties\<close>

subsection \<open>Evaluation at concrete inputs\<close>

text \<open>
  The equations that evaluate the decoder, the encoder and the reference C library on
  concrete inputs, by rewriting (with \<open>let_weak_cong\<close>, so that a \<open>let\<close> is unfolded
  once its argument is a value).
\<close>

text \<open>\<^verbatim>\<open>(char)x\<close> at a concrete \<open>x\<close>.\<close>
lemma to_char_eq_iff: "to_char x = c \<longleftrightarrow> unat x mod 256 = of_char c"
proof
  assume "to_char x = c"
  then show "unat x mod 256 = of_char c"
    by (auto simp: to_char_def of_char_of)
next
  assume "unat x mod 256 = of_char c"
  then have "char_of (unat x mod 256) = (char_of (of_char c :: nat) :: char)" by simp
  then show "to_char x = c"
    by (simp add: to_char_def char_of_mod_256)
qed

lemmas dec_eval = rjson_parse_def cstr_def NUL_def parse_value.simps parse_array.simps
  parse_array_loop.simps parse_object.simps parse_object_loop.simps skip_whitespace_def
  is_ws_def peek_def parse_string_def unescape_string_def unicode_escape_def
  low_surrogate_def utf8_encode_def hex_value_def uc_def to_char_eq_iff parse_number_def
  number_scan_def number_int_def number_frac_def number_exp_def isdigit_def isfinite_def
  parse_literal_def rjson_array_new_def
  rjson_object_new_def RJSON_MAX_DEPTH_def Let_def

lemmas ref_eval = ref_libc_def bitlen.simps log2_adjust_def floor_log2_def half_even_def
  round_half_even_def sign_bit_def pack_binary64_def normalise_binary64_def
  round_binary64_def scale_binary64_def binary64_of_ratio_def ref_strtod_def peek_def
  isdigit_def uc_def Let_def dec_up.simps dec_down.simps decimal_exponent_def
  digit_char_def strip_zeros_def with_point_def exponent_text_def dec_digits.simps
  g_style_def g_digits_def g_round_def g_finite_def ref_snprintf_g_def

subsection \<open>Object lookup\<close>

lemma object_get_loop_find:
  "object_get_loop members key =
     map_option snd (find (\<lambda>m. cstr (fst m) = cstr key) members)"
  by (induction members) auto

lemma parse_duplicate_keys:
  "rjson_parse ref_libc (Some ''{\"a\":1,\"a\":2}'') =
     Some (RJSON_OBJECT [(''a'', RJSON_NUMBER 0x3FF0000000000000),
                         (''a'', RJSON_NUMBER 0x4000000000000000)])"
  by (simp add: dec_eval ref_eval cong: let_weak_cong)

text \<open>
  Claim C5. \<^verbatim>\<open>rjson_object_get_value\<close> returns the value of the first member, in insertion
  order, whose key equals the key looked up (as C strings), and none when no key matches;
  \<^verbatim>\<open>rjson_object_add\<close> appends a member whatever the keys already present, so duplicate
  keys are all retained; decoding \<^verbatim>\<open>{"a":1,"a":2}\<close> keeps both members and the lookup of
  \<^verbatim>\<open>"a"\<close> returns the number 1 (bit pattern 3FF0000000000000); the lookup returns none
  on a NULL object, on a NULL key and on a value of each of the five other types.
\<close>
theorem C5_object_get_first_match:
  "rjson_object_get_value (Some (RJSON_OBJECT members)) (Some key) =
     map_option snd (find (\<lambda>m. cstr (fst m) = cstr key) members)
   \<and> rjson_object_add (RJSON_OBJECT members) key child =
       Some (RJSON_OBJECT (members @ [(cstr key, child)]))
   \<and> rjson_parse ref_libc (Some ''{\"a\":1,\"a\":2}'') =
       Some (RJSON_OBJECT [(''a'', RJSON_NUMBER 0x3FF0000000000000),
                           (''a'', RJSON_NUMBER 0x4000000000000000)])
   \<and> rjson_object_get_value (rjson_parse ref_libc (Some ''{\"a\":1,\"a\":2}'')) (Some ''a'') =
       Some (RJSON_NUMBER 0x3FF0000000000000)
   \<and> rjson_object_get_value None k = None
   \<and> rjson_object_get_value obj None = None
   \<and> rjson_object_get_value (Some RJSON_NULL) k = None
   \<and> rjson_object_get_value (Some (RJSON_BOOL b)) k = None
   \<and> rjson_object_get_value (Some (RJSON_NUMBER x)) k = None
   \<and> rjson_object_get_value (Some (RJSON_STRING str)) k = None
   \<and> rjson_object_get_value (Some (RJSON_ARRAY elements)) k = None"
proof -
  have "rjson_object_get_value obj None = None"
    by (cases "(obj, None :: string option)" rule: rjson_object_get_value.cases) auto
  then show ?thesis
    by (simp add: object_get_loop_find parse_duplicate_keys cstr_def NUL_def)
qed

subsection \<open>The encoder's escapes\<close>

lemma buffer_strbuf_append [simp]:
  "buffer (strbuf_append sb data len) = buffer sb @ take len data"
  by (simp add: strbuf_append_def Let_def)

lemma u_escape_control:
  "n < 32 \<Longrightarrow> u_escape n = [CHR 0x5C, CHR ''u'', CHR ''0'', CHR ''0'', lower_hex (n div 16), lower_hex (n mod 16)]"
  by (simp add: u_escape_def hex_digit_def lower_hex_def div_less)

lemma escape_table_None: "replacement c = None \<Longrightarrow> escape_table c = [c]"
  by (simp add: escape_table_def replacement_def split: if_splits)

lemma escape_table_Some: "replacement c = Some rep \<Longrightarrow> escape_table c = rep"
  by (auto simp: escape_table_def replacement_def u_escape_control split: if_splits)

lemma escape_loop_buffer:
  "start \<le> p \<Longrightarrow> p \<le> length inp \<Longrightarrow>
   (\<forall>i. start \<le> i \<and> i < p \<longrightarrow> replacement (inp ! i) = None) \<Longrightarrow>
   buffer (escape_loop inp start p sb) =
     buffer sb @ take (p - start) (drop start inp) @ concat (map escape_table (drop p inp))"
proof (induction inp start p sb rule: escape_loop.induct)
  case (1 inp start p sb)
  show ?case
  proof (cases "p < length inp")
    case False
    with "1.prems" have "p = length inp" by simp
    then show ?thesis
      by (subst escape_loop.simps) simp
  next
    case True
    then have dr: "drop p inp = inp ! p # drop (Suc p) inp"
      by (simp add: Cons_nth_drop_Suc)
    show ?thesis
    proof (cases "replacement (inp ! p)")
      case None
      have inv: "\<forall>i. start \<le> i \<and> i < p + 1 \<longrightarrow> replacement (inp ! i) = None"
        using "1.prems"(3) None by (auto simp: less_Suc_eq)
      have tk: "take (Suc p - start) (drop start inp) = take (p - start) (drop start inp) @ [inp ! p]"
        using True "1.prems"(1)
        by (simp add: Suc_diff_le take_Suc_conv_app_nth)
      have "buffer (escape_loop inp start p sb) = buffer (escape_loop inp start (p + 1) sb)"
        using True None by (subst escape_loop.simps) simp
      also have "\<dots> = buffer sb @ take (p + 1 - start) (drop start inp) @
                       concat (map escape_table (drop (p + 1) inp))"
        using "1.IH"(1) [OF True None _ _ inv] True "1.prems"(1) by simp
      finally show ?thesis
        using None by (simp add: tk dr escape_table_None)
    next
      case (Some rep)
      define sb1 where "sb1 = (if p > start then strbuf_append sb (drop start inp) (p - start) else sb)"
      define sb2 where "sb2 = strbuf_append sb1 rep (length rep)"
      have vac: "\<forall>i. p + 1 \<le> i \<and> i < p + 1 \<longrightarrow> replacement (inp ! i) = None"
        by auto
      have b1: "buffer sb1 = buffer sb @ take (p - start) (drop start inp)"
        by (simp add: sb1_def)
      have "buffer (escape_loop inp start p sb) = buffer (escape_loop inp (p + 1) (p + 1) sb2)"
        using True Some by (subst escape_loop.simps) (simp add: sb1_def sb2_def Let_def)
      also have "\<dots> = buffer sb2 @ take 0 (drop (p + 1) inp) @
                       concat (map escape_table (drop (p + 1) inp))"
        using "1.IH"(2) [OF True Some sb1_def sb2_def _ _ vac] True by simp
      finally show ?thesis
        using Some by (simp add: sb2_def b1 dr escape_table_Some)
    qed
  qed
qed

lemma escape_string_buffer:
  "buffer (escape_string inp sb) =
     buffer sb @ [CHR 0x22] @ concat (map escape_table (cstr inp)) @ [CHR 0x22]"
  by (simp add: escape_string_def Let_def escape_loop_buffer)


lemma serialize_string_buffer:
  "depth < RJSON_MAX_DEPTH \<Longrightarrow>
   serialize_value L (RJSON_STRING s) sb depth = Some sb' \<Longrightarrow>
   buffer sb' = buffer sb @ [CHR 0x22] @ concat (map escape_table (cstr s)) @ [CHR 0x22]"
  by (auto simp: escape_string_buffer)

text \<open>
  Claim C7. The bytes \<^verbatim>\<open>escape_string\<close> appends for a string are the opening quote, the
  escape of each byte of the string by the table of the specification (\<open>escape_table\<close>),
  and the closing quote; so is the output of \<^verbatim>\<open>rjson_serialize\<close> on a string value. A
  byte from 0x20 on other than the quote and the backslash is its own escape, the
  solidus and the continuation byte 0x80 among them. The string of the one byte 0x01
  encodes as \<^verbatim>\<open>"\u0001"\<close>, and \<^verbatim>\<open>Line<LF>Break<TAB>Tab\<close> as \<^verbatim>\<open>"Line\nBreak\tTab"\<close>.
\<close>
theorem C7_escape_string_table:
  "buffer (escape_string inp sb) =
     buffer sb @ [CHR 0x22] @ concat (map escape_table (cstr inp)) @ [CHR 0x22]
   \<and> rjson_serialize L (Some (RJSON_STRING inp)) (Some out) None =
       (0, Some (Some ([CHR 0x22] @ concat (map escape_table (cstr inp)) @ [CHR 0x22])), None)
   \<and> (0x20 \<le> uc c \<and> c \<noteq> CHR 0x22 \<and> c \<noteq> CHR 0x5C \<longrightarrow> escape_table c = [c])
   \<and> escape_table (CHR ''/'') = ''/''
   \<and> escape_table (CHR 0x80) = [CHR 0x80]
   \<and> rjson_serialize L (Some (rjson_string_new [CHR 0x01])) (Some None) None =
       (0, Some (Some (''\"'' @ [CHR 0x5C] @ ''u0001\"'')), None)
   \<and> rjson_serialize L
         (Some (rjson_string_new (''Line'' @ [CHR 0x0A] @ ''Break'' @ [CHR 0x09] @ ''Tab'')))
         (Some None) None =
       (0, Some (Some (''\"Line'' @ [CHR 0x5C] @ ''nBreak'' @ [CHR 0x5C] @ ''tTab\"'')), None)"
proof -
  have ser: "rjson_serialize L (Some (RJSON_STRING s)) (Some out) None =
      (0, Some (Some ([CHR 0x22] @ concat (map escape_table (cstr s)) @ [CHR 0x22])), None)"
    for s out
    by (simp add: rjson_serialize_def RJSON_MAX_DEPTH_def escape_string_buffer strbuf_init_def)
  have verb: "0x20 \<le> uc c \<and> c \<noteq> CHR 0x22 \<and> c \<noteq> CHR 0x5C \<longrightarrow> escape_table c = [c]"
    by (auto simp: escape_table_def uc_def)
  have ex: "escape_table (CHR ''/'') = ''/''" "escape_table (CHR 0x80) = [CHR 0x80]"
    by (simp_all add: escape_table_def uc_def)
  show ?thesis
    using verb ex
    by (simp add: escape_string_buffer ser rjson_string_new_def cstr_def NUL_def)
       (simp add: escape_table_def uc_def lower_hex_def)
qed

theorem C7_escape_string_table_witness:
  "0x20 \<le> uc (CHR ''/'') \<and> CHR ''/'' \<noteq> CHR 0x22 \<and> CHR ''/'' \<noteq> CHR 0x5C
   \<and> escape_table (CHR ''/'') = ''/''
   \<and> buffer (escape_string (''a/'' @ [CHR 0x01, CHR 0x5C]) (strbuf_init 1024)) =
       ''\"a/'' @ [CHR 0x5C] @ ''u0001'' @ [CHR 0x5C, CHR 0x5C] @ ''\"''"
  using C7_escape_string_table [of "''a/'' @ [CHR 0x01, CHR 0x5C]" "strbuf_init 1024" ref_libc None "CHR ''/''"]
  by (simp add: uc_def strbuf_init_def cstr_def NUL_def)
     (simp add: escape_table_def uc_def lower_hex_def)

subsection \<open>The decoder: the cursor moves forward\<close>

lemma peek_Cons: "peek s = c \<Longrightarrow> c \<noteq> NUL \<Longrightarrow> \<exists>t. s = c # t"
  by (cases s) (auto simp: peek_def)

lemma isdigit_not_NUL: "isdigit c \<Longrightarrow> c \<noteq> NUL"
  by (auto simp: isdigit_def NUL_def uc_def)

lemma tl_shorter: "peek s \<noteq> NUL \<Longrightarrow> length (tl s) < length s"
  by (cases s) (auto simp: peek_def)

lemma dropWhile_isdigit_shorter: "isdigit (peek s) \<Longrightarrow> length (dropWhile isdigit s) < length s"
  by (cases s) (auto simp: peek_def isdigit_not_NUL le_imp_less_Suc length_dropWhile_le dest: isdigit_not_NUL)

lemma tl_le: "length (tl s) \<le> length s"
  by simp

lemma dropWhile_tl_le: "length (dropWhile P (tl s)) \<le> length s"
  using length_dropWhile_le [of P "tl s"] by (cases s) auto

lemma number_int_shorter: "number_int s = Some r \<Longrightarrow> length r < length s"
  using tl_shorter [of s] dropWhile_isdigit_shorter [of s]
  by (auto simp del: length_tl simp: number_int_def NUL_def split: if_splits)

lemma number_frac_le: "number_frac s = Some r \<Longrightarrow> length r \<le> length s"
  by (auto simp: number_frac_def dropWhile_tl_le split: if_splits)

lemma number_exp_le: "number_exp s = Some r \<Longrightarrow> length r \<le> length s"
proof -
  have "length (dropWhile isdigit (tl (tl s))) \<le> length s"
    using dropWhile_tl_le [of isdigit "tl s"] by simp
  moreover assume "number_exp s = Some r"
  ultimately show ?thesis
    by (auto simp: number_exp_def Let_def dropWhile_tl_le split: if_splits)
qed

lemma number_scan_shorter:
  assumes "number_scan json = Some rest"
  shows "length rest < length json"
proof -
  from assms obtain s2 s3 where
    a: "number_int (if peek json = CHR ''-'' then tl json else json) = Some s2"
    and b: "number_frac s2 = Some s3" and c: "number_exp s3 = Some rest"
    by (auto simp: number_scan_def split: option.splits)
  have "length (if peek json = CHR ''-'' then tl json else json) \<le> length json"
    by simp
  with number_int_shorter [OF a] number_frac_le [OF b] number_exp_le [OF c]
  show ?thesis by linarith
qed

lemma parse_number_shorter: "parse_number L json = Some (v, r) \<Longrightarrow> length r < length json"
  by (auto simp: parse_number_def Let_def split: option.splits prod.splits if_splits
      dest: number_scan_shorter)

lemma parse_literal_shorter: "parse_literal json = Some (v, r) \<Longrightarrow> length r < length json"
  by (cases json) (auto simp: parse_literal_def split: if_splits)

lemma parse_string_shorter: "parse_string json = Some (v, r) \<Longrightarrow> length r < length json"
  by (cases json) (auto simp: parse_string_def Let_def split: option.splits dest!: string_scan_bound)


lemma parse_induct [case_names pv pa_nil pa pal po_nil po pol]:
  assumes "\<And>L json depth.
      (peek (skip_whitespace json) = CHR ''['' \<Longrightarrow> P2 L (skip_whitespace json) depth) \<Longrightarrow>
      (peek (skip_whitespace json) = CHR ''{'' \<Longrightarrow> P4 L (skip_whitespace json) depth) \<Longrightarrow>
      P1 L json depth"
    and "\<And>L depth. P2 L [] depth"
    and "\<And>L c json depth.
      (depth < RJSON_MAX_DEPTH \<Longrightarrow> peek (skip_whitespace json) \<noteq> CHR '']'' \<Longrightarrow>
         P3 L rjson_array_new (skip_whitespace json) depth) \<Longrightarrow>
      P2 L (c # json) depth"
    and "\<And>L arr_val json depth.
      P1 L json (depth + 1) \<Longrightarrow>
      (\<And>element r arr_val'.
         parse_value L json (depth + 1) = Some (element, r) \<Longrightarrow> length r < length json \<Longrightarrow>
         rjson_array_add arr_val element = Some arr_val' \<Longrightarrow>
         peek (skip_whitespace r) = CHR '','' \<Longrightarrow>
         P3 L arr_val' (tl (skip_whitespace r)) depth) \<Longrightarrow>
      P3 L arr_val json depth"
    and "\<And>L depth. P4 L [] depth"
    and "\<And>L c json depth.
      (depth < RJSON_MAX_DEPTH \<Longrightarrow> peek (skip_whitespace json) \<noteq> CHR ''}'' \<Longrightarrow>
         P5 L rjson_object_new (skip_whitespace json) depth) \<Longrightarrow>
      P4 L (c # json) depth"
    and "\<And>L obj_val json depth.
      (\<And>key_val r.
         peek (skip_whitespace json) = CHR 0x22 \<Longrightarrow>
         parse_string (skip_whitespace json) = Some (key_val, r) \<Longrightarrow>
         peek (skip_whitespace r) = CHR '':'' \<Longrightarrow>
         P1 L (tl (skip_whitespace r)) (depth + 1)) \<Longrightarrow>
      (\<And>key_val r v r1 obj_val'.
         peek (skip_whitespace json) = CHR 0x22 \<Longrightarrow>
         parse_string (skip_whitespace json) = Some (key_val, r) \<Longrightarrow>
         peek (skip_whitespace r) = CHR '':'' \<Longrightarrow>
         parse_value L (tl (skip_whitespace r)) (depth + 1) = Some (v, r1) \<Longrightarrow>
         length r1 < length json \<Longrightarrow>
         rjson_object_add obj_val (str_val key_val) v = Some obj_val' \<Longrightarrow>
         peek (skip_whitespace r1) = CHR '','' \<Longrightarrow>
         P5 L obj_val' (tl (skip_whitespace r1)) depth) \<Longrightarrow>
      P5 L obj_val json depth"
  shows "P1 L json depth" and "P2 L json depth" and "P3 L arr json depth"
    and "P4 L json depth" and "P5 L obj json depth"
proof (induction L json depth and L json depth and L arr json depth and L json depth
    and L obj json depth
    rule: parse_value_parse_array_parse_array_loop_parse_object_parse_object_loop.induct)
  case (1 L json depth)
  show ?case
    by (rule assms(1)) (use 1 in auto)
next
  case (2 L depth)
  show ?case by (rule assms(2))
next
  case (3 L c json depth)
  show ?case
    by (rule assms(3)) (use 3 in auto)
next
  case (4 L arr_val json depth)
  show ?case
    by (rule assms(4)) (use 4 in auto)
next
  case (5 L depth)
  show ?case by (rule assms(5))
next
  case (6 L c json depth)
  show ?case
    by (rule assms(6)) (use 6 in auto)
next
  case (7 L obj_val json depth)
  show ?case
    by (rule assms(7)) (use 7 in auto)
qed

lemma parse_shorter_all:
  "(\<forall>v r. parse_value L json depth = Some (v, r) \<longrightarrow> length r < length json)"
  "(\<forall>v r. parse_array L json depth = Some (v, r) \<longrightarrow> length r < length json)"
  "(\<forall>v r. parse_array_loop L arr json depth = Some (v, r) \<longrightarrow> length r < length json)"
  "(\<forall>v r. parse_object L json depth = Some (v, r) \<longrightarrow> length r < length json)"
  "(\<forall>v r. parse_object_loop L obj json depth = Some (v, r) \<longrightarrow> length r < length json)"
proof (induction L json depth and L json depth and L arr json depth and L json depth
    and L obj json depth rule: parse_induct)
  case (pv L json depth)
  show ?case
    using pv skip_whitespace_length [of json]
    by (subst parse_value.simps)
       (auto simp: Let_def dest!: parse_string_shorter parse_literal_shorter parse_number_shorter)
next
  case (pa_nil L depth)
  show ?case by (simp add: parse_array.simps)
next
  case (pa L c json depth)
  show ?case
    using pa skip_whitespace_length [of json] tl_le [of "skip_whitespace json"]
    by (subst parse_array.simps) (auto simp: Let_def)
next
  case (pal L arr_val json depth)
  show ?case
  proof (intro allI impI)
    fix v r
    assume a: "parse_array_loop L arr_val json depth = Some (v, r)"
    then obtain element r0 arr_val' where
      pv: "parse_value L json (depth + 1) = Some (element, r0)" and lt: "length r0 < length json"
      and add: "rjson_array_add arr_val element = Some arr_val'"
      by (subst (asm) parse_array_loop.simps) (auto split: option.splits if_splits)
    show "length r < length json"
    proof (cases "peek (skip_whitespace r0) = CHR '']''")
      case True
      with a pv lt add have "r = tl (skip_whitespace r0)"
        by (subst (asm) parse_array_loop.simps) (auto simp: Let_def)
      moreover have "length (tl (skip_whitespace r0)) < length json"
        using lt skip_whitespace_length [of r0] tl_le [of "skip_whitespace r0"] by linarith
      ultimately show ?thesis by simp
    next
      case False
      with a pv lt add have c: "peek (skip_whitespace r0) = CHR '',''"
        and rec: "parse_array_loop L arr_val' (tl (skip_whitespace r0)) depth = Some (v, r)"
        by (subst (asm) parse_array_loop.simps; auto simp: Let_def split: if_splits)+
      from pal(2) [OF pv lt add c] rec
      have "length r < length (tl (skip_whitespace r0))" by blast
      then show ?thesis
        using lt skip_whitespace_length [of r0] tl_le [of "skip_whitespace r0"] by linarith
    qed
  qed
next
  case (po_nil L depth)
  show ?case by (simp add: parse_object.simps)
next
  case (po L c json depth)
  show ?case
    using po skip_whitespace_length [of json] tl_le [of "skip_whitespace json"]
    by (subst parse_object.simps) (auto simp: Let_def)
next
  case (pol L obj_val json depth)
  show ?case
  proof (intro allI impI)
    fix v r
    assume a: "parse_object_loop L obj_val json depth = Some (v, r)"
    then obtain key_val r0 v0 r1 obj_val' where
      q: "peek (skip_whitespace json) = CHR 0x22"
      and ps: "parse_string (skip_whitespace json) = Some (key_val, r0)"
      and col: "peek (skip_whitespace r0) = CHR '':''"
      and pv: "parse_value L (tl (skip_whitespace r0)) (depth + 1) = Some (v0, r1)"
      and lt: "length r1 < length json"
      and add: "rjson_object_add obj_val (str_val key_val) v0 = Some obj_val'"
      by (subst (asm) parse_object_loop.simps) (auto simp: Let_def split: option.splits if_splits)
    show "length r < length json"
    proof (cases "peek (skip_whitespace r1) = CHR ''}''")
      case True
      with a q ps col pv lt add have "r = tl (skip_whitespace r1)"
        by (subst (asm) parse_object_loop.simps) (auto simp: Let_def)
      moreover have "length (tl (skip_whitespace r1)) < length json"
        using lt skip_whitespace_length [of r1] tl_le [of "skip_whitespace r1"] by linarith
      ultimately show ?thesis by simp
    next
      case False
      with a q ps col pv lt add have c: "peek (skip_whitespace r1) = CHR '',''"
        and rec: "parse_object_loop L obj_val' (tl (skip_whitespace r1)) depth = Some (v, r)"
        by (subst (asm) parse_object_loop.simps; auto simp: Let_def split: if_splits)+
      from pol(2) [OF q ps col pv lt add c] rec
      have "length r < length (tl (skip_whitespace r1))" by blast
      then show ?thesis
        using lt skip_whitespace_length [of r1] tl_le [of "skip_whitespace r1"] by linarith
    qed
  qed
qed

lemma parse_value_shorter: "parse_value L json depth = Some (v, r) \<Longrightarrow> length r < length json"
  using parse_shorter_all(1) by blast

text \<open>The loops as the C has them.\<close>

lemma parse_array_loop_eq:
  "parse_array_loop L arr_val json depth =
     (case parse_value L json (depth + 1) of
        None \<Rightarrow> None
      | Some (element, r) \<Rightarrow>
          (case rjson_array_add arr_val element of
             None \<Rightarrow> None
           | Some arr_val' \<Rightarrow>
               let s = skip_whitespace r in
               if peek s = CHR '']'' then Some (arr_val', tl s)
               else if peek s \<noteq> CHR '','' then None
               else parse_array_loop L arr_val' (tl s) depth))"
  by (subst parse_array_loop.simps) (auto split: option.splits dest: parse_value_shorter)

lemma parse_object_loop_eq:
  "parse_object_loop L obj_val json depth =
     (let s = skip_whitespace json in
      if peek s \<noteq> CHR 0x22 then None
      else
        (case parse_string s of
           None \<Rightarrow> None
         | Some (key_val, r) \<Rightarrow>
             let s1 = skip_whitespace r in
             if peek s1 \<noteq> CHR '':'' then None
             else
               (case parse_value L (tl s1) (depth + 1) of
                  None \<Rightarrow> None
                | Some (v, r1) \<Rightarrow>
                    (case rjson_object_add obj_val (str_val key_val) v of
                       None \<Rightarrow> None
                     | Some obj_val' \<Rightarrow>
                         let s2 = skip_whitespace r1 in
                         if peek s2 = CHR ''}'' then Some (obj_val', tl s2)
                         else if peek s2 \<noteq> CHR '','' then None
                         else parse_object_loop L obj_val' (tl s2) depth))))"
proof -
  have "length r1 < length json"
    if "parse_string (skip_whitespace json) = Some (key_val, r)"
      and "parse_value L (tl (skip_whitespace r)) (depth + 1) = Some (v, r1)"
    for key_val r v r1
    using parse_value_shorter [OF that(2)] parse_string_shorter [OF that(1)]
      skip_whitespace_length [of json] skip_whitespace_length [of r]
      tl_le [of "skip_whitespace r"]
    by linarith
  then show ?thesis
    by (subst parse_object_loop.simps) (auto simp: Let_def split: option.splits)
qed

subsection \<open>The depth guard of the decoder\<close>

lemma nesting_list_append [simp]: "nesting_list (es @ [e]) = max (nesting_list es) (nesting e)"
  by (induction es) auto

lemma nesting_members_append [simp]:
  "nesting_members (ms @ [(k, v)]) = max (nesting_members ms) (nesting v)"
  by (induction ms) auto

lemma parse_string_nesting: "parse_string s = Some (v, r) \<Longrightarrow> nesting v = 0"
  by (auto simp: parse_string_def Let_def split: option.splits)

lemma parse_literal_nesting: "parse_literal s = Some (v, r) \<Longrightarrow> nesting v = 0"
  by (auto simp: parse_literal_def split: if_splits)

lemma parse_number_nesting: "parse_number L s = Some (v, r) \<Longrightarrow> nesting v = 0"
  by (auto simp: parse_number_def Let_def split: option.splits prod.splits if_splits)

lemma parse_depth_all:
  "depth \<le> RJSON_MAX_DEPTH \<longrightarrow>
     (\<forall>v r. parse_value L json depth = Some (v, r) \<longrightarrow> depth + nesting v \<le> RJSON_MAX_DEPTH)"
  "\<forall>v r. parse_array L json depth = Some (v, r) \<longrightarrow> depth + nesting v \<le> RJSON_MAX_DEPTH"
  "\<forall>v r es. arr = RJSON_ARRAY es \<and> Suc (depth + nesting_list es) \<le> RJSON_MAX_DEPTH \<and>
      parse_array_loop L arr json depth = Some (v, r) \<longrightarrow> depth + nesting v \<le> RJSON_MAX_DEPTH"
  "\<forall>v r. parse_object L json depth = Some (v, r) \<longrightarrow> depth + nesting v \<le> RJSON_MAX_DEPTH"
  "\<forall>v r ms. obj = RJSON_OBJECT ms \<and> Suc (depth + nesting_members ms) \<le> RJSON_MAX_DEPTH \<and>
      parse_object_loop L obj json depth = Some (v, r) \<longrightarrow> depth + nesting v \<le> RJSON_MAX_DEPTH"
proof (induction L json depth and L json depth and L arr json depth and L json depth
    and L obj json depth rule: parse_induct)
  case (pv L json depth)
  show ?case
    using pv
    by (subst parse_value.simps)
       (auto simp: Let_def dest!: parse_string_nesting parse_literal_nesting parse_number_nesting)
next
  case (pa_nil L depth)
  show ?case by (simp add: parse_array.simps)
next
  case (pa L c json depth)
  show ?case
    using pa
    by (subst parse_array.simps) (auto simp: Let_def rjson_array_new_def not_le)
next
  case (pal L arr_val json depth)
  show ?case
  proof (intro allI impI, elim conjE)
    fix v r es
    assume arr: "arr_val = RJSON_ARRAY es" and d: "Suc (depth + nesting_list es) \<le> RJSON_MAX_DEPTH"
      and a: "parse_array_loop L arr_val json depth = Some (v, r)"
    from a obtain element r0 where pv: "parse_value L json (depth + 1) = Some (element, r0)"
      by (subst (asm) parse_array_loop_eq) (auto split: option.splits)
    have lt: "length r0 < length json" by (rule parse_value_shorter [OF pv])
    have add: "rjson_array_add arr_val element = Some (RJSON_ARRAY (es @ [element]))"
      by (simp add: arr)
    have ne: "depth + 1 + nesting element \<le> RJSON_MAX_DEPTH"
      using pal(1) pv d by auto
    show "depth + nesting v \<le> RJSON_MAX_DEPTH"
    proof (cases "peek (skip_whitespace r0) = CHR '']''")
      case True
      with a pv add have "v = RJSON_ARRAY (es @ [element])"
        by (subst (asm) parse_array_loop_eq) (auto simp: Let_def)
      then show ?thesis using d ne by simp
    next
      case False
      with a pv add have c: "peek (skip_whitespace r0) = CHR '',''"
        and rec: "parse_array_loop L (RJSON_ARRAY (es @ [element])) (tl (skip_whitespace r0)) depth
                  = Some (v, r)"
        by (subst (asm) parse_array_loop_eq; auto simp: Let_def split: if_splits)+
      from pal(2) [OF pv lt add c] rec d ne show ?thesis by auto
    qed
  qed
next
  case (po_nil L depth)
  show ?case by (simp add: parse_object.simps)
next
  case (po L c json depth)
  show ?case
    using po
    by (subst parse_object.simps) (auto simp: Let_def rjson_object_new_def not_le)
next
  case (pol L obj_val json depth)
  show ?case
  proof (intro allI impI, elim conjE)
    fix v r ms
    assume obj: "obj_val = RJSON_OBJECT ms"
      and d: "Suc (depth + nesting_members ms) \<le> RJSON_MAX_DEPTH"
      and a: "parse_object_loop L obj_val json depth = Some (v, r)"
    from a obtain key_val r0 v0 r1 where
      q: "peek (skip_whitespace json) = CHR 0x22"
      and ps: "parse_string (skip_whitespace json) = Some (key_val, r0)"
      and col: "peek (skip_whitespace r0) = CHR '':''"
      and pv: "parse_value L (tl (skip_whitespace r0)) (depth + 1) = Some (v0, r1)"
      by (subst (asm) parse_object_loop_eq) (auto simp: Let_def split: option.splits if_splits)
    have lt: "length r1 < length json"
      using parse_value_shorter [OF pv] parse_string_shorter [OF ps]
        skip_whitespace_length [of json] skip_whitespace_length [of r0]
        tl_le [of "skip_whitespace r0"]
      by linarith
    define m where "m = (cstr (str_val key_val), v0)"
    have add: "rjson_object_add obj_val (str_val key_val) v0 = Some (RJSON_OBJECT (ms @ [m]))"
      by (simp add: obj m_def)
    have ne: "depth + 1 + nesting v0 \<le> RJSON_MAX_DEPTH"
      using pol(1) [OF q ps col] pv d by auto
    show "depth + nesting v \<le> RJSON_MAX_DEPTH"
    proof (cases "peek (skip_whitespace r1) = CHR ''}''")
      case True
      with a q ps col pv add have "v = RJSON_OBJECT (ms @ [m])"
        by (subst (asm) parse_object_loop_eq) (auto simp: Let_def)
      then show ?thesis using d ne by (simp add: m_def)
    next
      case False
      with a q ps col pv add have c: "peek (skip_whitespace r1) = CHR '',''"
        and rec: "parse_object_loop L (RJSON_OBJECT (ms @ [m])) (tl (skip_whitespace r1)) depth
                  = Some (v, r)"
        by (subst (asm) parse_object_loop_eq; auto simp: Let_def split: if_splits)+
      from pol(2) [OF q ps col pv lt add c] rec d ne show ?thesis by (auto simp: m_def)
    qed
  qed
qed

lemma skip_whitespace_bracket [simp]:
  "skip_whitespace (CHR ''['' # s) = CHR ''['' # s" "skip_whitespace (CHR '']'' # s) = CHR '']'' # s"
  by (simp_all add: skip_whitespace_def is_ws_def)

lemma parse_nested_arrays:
  "depth + n < RJSON_MAX_DEPTH \<Longrightarrow>
   parse_value L (replicate (Suc n) (CHR ''['') @ replicate (Suc n) (CHR '']'') @ rest) depth =
     Some (nested_arrays n, rest)"
proof (induction n arbitrary: depth rest)
  case 0
  then show ?case
    by (simp add: parse_value.simps parse_array.simps peek_def Let_def rjson_array_new_def not_le)
next
  case (Suc n)
  have r: "replicate (Suc (Suc n)) (CHR '']'') @ rest =
           replicate (Suc n) (CHR '']'') @ (CHR '']'' # rest)"
    by (simp add: replicate_append_same)
  have ih: "parse_value L (replicate (Suc n) (CHR ''['') @ replicate (Suc n) (CHR '']'') @
              (CHR '']'' # rest)) (depth + 1) = Some (nested_arrays n, CHR '']'' # rest)"
    using Suc.IH [of "depth + 1" "CHR '']'' # rest"] Suc.prems by simp
  have d: "\<not> RJSON_MAX_DEPTH \<le> depth" using Suc.prems by simp
  show ?case
    unfolding r
    apply (subst parse_value.simps)
    apply (simp add: peek_def Let_def)
    apply (subst parse_array.simps)
    apply (simp add: d peek_def Let_def rjson_array_new_def)
    apply (subst parse_array_loop_eq)
    using ih apply (simp add: peek_def Let_def)
    done
qed


lemma parse_too_deep:
  "RJSON_MAX_DEPTH \<le> depth + n \<Longrightarrow>
   parse_value L (replicate (Suc n) (CHR ''['') @ rest) depth = None"
proof (induction n arbitrary: depth)
  case 0
  then show ?case
    by (simp add: parse_value.simps parse_array.simps peek_def Let_def)
next
  case (Suc n)
  have ih: "parse_value L (replicate (Suc n) (CHR ''['') @ rest) (depth + 1) = None"
    using Suc.IH [of "depth + 1"] Suc.prems by simp
  show ?case
    apply (subst parse_value.simps)
    apply (simp add: peek_def Let_def)
    apply (subst parse_array.simps)
    apply (simp add: peek_def Let_def rjson_array_new_def)
    apply (subst parse_array_loop_eq)
    using ih apply simp
    done
qed

lemma nesting_nested_arrays: "nesting (nested_arrays n) = Suc n"
  by (induction n) auto

lemma cstr_append_no_NUL: "NUL \<notin> set s \<Longrightarrow> cstr (s @ t) = s @ cstr t"
  by (induction s) (auto simp: cstr_def)

lemma rjson_parse_brackets:
  "rjson_parse L (Some (replicate (Suc n) (CHR ''['') @ rest)) =
     (case parse_value L (replicate (Suc n) (CHR ''['') @ cstr rest) 0 of
        None \<Rightarrow> None
      | Some (result, r) \<Rightarrow> if peek (skip_whitespace r) \<noteq> NUL then None else Some result)"
proof -
  have "cstr (replicate (Suc n) (CHR ''['') @ rest) = replicate (Suc n) (CHR ''['') @ cstr rest"
    by (rule cstr_append_no_NUL) (simp add: NUL_def)
  then show ?thesis
    by (simp add: rjson_parse_def Let_def)
qed

text \<open>
  Claim C2 as stated fails at the bound: 512 arrays nested in one another are accepted
  (the outermost is entered at depth 0, the innermost at depth 511).
\<close>
theorem C2_nesting_512_accepted:
  "rjson_parse ref_libc (Some (replicate 512 (CHR ''['') @ replicate 512 (CHR '']''))) =
     Some (nested_arrays 511)
   \<and> nesting (nested_arrays 511) = 512"
proof -
  have "parse_value ref_libc
          (replicate (Suc 511) (CHR ''['') @ replicate (Suc 511) (CHR '']'') @ []) 0 =
        Some (nested_arrays 511, [])"
    by (rule parse_nested_arrays) (simp add: RJSON_MAX_DEPTH_def)
  moreover have "cstr (replicate 512 (CHR '']'')) = replicate 512 (CHR '']'')"
    using cstr_append_no_NUL [of "replicate 512 (CHR '']'')" "[]"]
    by (simp add: NUL_def cstr_def)
  ultimately show ?thesis
    using rjson_parse_brackets [of ref_libc 511 "replicate (Suc 511) (CHR '']'')"]
    by (simp add: nesting_nested_arrays skip_whitespace_def peek_def)
qed

text \<open>
  Claim C2, amended. \<^verbatim>\<open>parse_array\<close> and \<^verbatim>\<open>parse_object\<close> fail at once when they are
  entered with a depth of 512 or more. The top-level value is parsed at depth 0, and a
  value parsed at a depth of at most 512 has, with its depth, a nesting of at most 512:
  no input that \<^verbatim>\<open>rjson_parse\<close> accepts decodes to a value nested deeper than 512, and
  every input that begins with more than 512 opening brackets fails.
\<close>
theorem C2_depth_bound:
  "(RJSON_MAX_DEPTH \<le> depth \<longrightarrow>
      parse_array L json depth = None \<and> parse_object L json depth = None)
   \<and> (depth \<le> RJSON_MAX_DEPTH \<and> parse_value L json depth = Some (v, r) \<longrightarrow>
        depth + nesting v \<le> 512)
   \<and> (rjson_parse L input = Some root \<longrightarrow> nesting root \<le> 512)
   \<and> (512 \<le> n \<longrightarrow> rjson_parse L (Some (replicate (Suc n) (CHR ''['') @ rest)) = None)"
proof -
  have a: "RJSON_MAX_DEPTH \<le> depth \<longrightarrow>
      parse_array L json depth = None \<and> parse_object L json depth = None"
    by (cases json) (simp_all add: parse_array.simps parse_object.simps)
  have b: "depth \<le> RJSON_MAX_DEPTH \<and> parse_value L json depth = Some (v, r) \<longrightarrow>
      depth + nesting v \<le> 512"
    using parse_depth_all(1) [of depth L json] by (auto simp: RJSON_MAX_DEPTH_def)
  have c: "rjson_parse L input = Some root \<longrightarrow> nesting root \<le> 512"
  proof
    assume "rjson_parse L input = Some root"
    then obtain s r0 where "parse_value L s 0 = Some (root, r0)"
      by (auto simp: rjson_parse_def Let_def split: option.splits if_splits)
    with parse_depth_all(1) [of 0 L s] show "nesting root \<le> 512"
      by (auto simp: RJSON_MAX_DEPTH_def)
  qed
  have d: "512 \<le> n \<longrightarrow> rjson_parse L (Some (replicate (Suc n) (CHR ''['') @ rest)) = None"
    using parse_too_deep [of 0 n L "cstr rest"]
    by (simp only: rjson_parse_brackets) (simp add: RJSON_MAX_DEPTH_def)
  from a b c d show ?thesis by blast
qed

theorem C2_depth_bound_witness:
  "RJSON_MAX_DEPTH \<le> 512
   \<and> parse_array ref_libc ''[]'' 512 = None \<and> parse_object ref_libc ''{}'' 512 = None
   \<and> (511::nat) \<le> RJSON_MAX_DEPTH
   \<and> parse_value ref_libc ''[] '' 511 = Some (RJSON_ARRAY [], '' '')
   \<and> 511 + nesting (RJSON_ARRAY []) \<le> 512
   \<and> rjson_parse ref_libc (Some ''[[true]] '') = Some (RJSON_ARRAY [RJSON_ARRAY [RJSON_BOOL 1]])
   \<and> nesting (RJSON_ARRAY [RJSON_ARRAY [RJSON_BOOL 1]]) \<le> 512
   \<and> (512::nat) \<le> 512
   \<and> rjson_parse ref_libc (Some (replicate (Suc 512) (CHR ''['') @ ''1]'')) = None"
proof -
  have e1: "parse_array ref_libc ''[]'' 512 = None"
    using C2_depth_bound [where depth = 512 and L = ref_libc and json = "''[]''"]
    by (simp add: RJSON_MAX_DEPTH_def)
  have e2: "parse_object ref_libc ''{}'' 512 = None"
    using C2_depth_bound [where depth = 512 and L = ref_libc and json = "''{}''"]
    by (simp add: RJSON_MAX_DEPTH_def)
  have e3: "parse_value ref_libc ''[] '' 511 = Some (RJSON_ARRAY [], '' '')"
    by (simp add: dec_eval cong: let_weak_cong)
  have e4: "rjson_parse ref_libc (Some ''[[true]] '') =
      Some (RJSON_ARRAY [RJSON_ARRAY [RJSON_BOOL 1]])"
    by (simp add: dec_eval cong: let_weak_cong)
  have e5: "rjson_parse ref_libc (Some (replicate (Suc 512) (CHR ''['') @ ''1]'')) = None"
    using C2_depth_bound [where n = 512 and L = ref_libc and rest = "''1]''"]
    by simp
  have e6: "511 + nesting (RJSON_ARRAY []) \<le> 512"
    using C2_depth_bound [where depth = 511 and L = ref_libc and json = "''[] ''"
        and v = "RJSON_ARRAY []" and r = "'' ''"] e3
    by (simp add: RJSON_MAX_DEPTH_def)
  have e7: "nesting (RJSON_ARRAY [RJSON_ARRAY [RJSON_BOOL 1]]) \<le> 512"
    using C2_depth_bound [where L = ref_libc and input = "Some ''[[true]] ''"
        and root = "RJSON_ARRAY [RJSON_ARRAY [RJSON_BOOL 1]]"] e4
    by blast
  show ?thesis
    using e1 e2 e3 e4 e5 e6 e7 by (simp add: RJSON_MAX_DEPTH_def)
qed

subsection \<open>Surrogate pairs in string bodies\<close>

lemma unescape_loop_u:
  "unescape_loop out (CHR 0x5C # CHR ''u'' # q) =
     (case unicode_escape q of
        None \<Rightarrow> None
      | Some (cp, r) \<Rightarrow> unescape_loop (out @ utf8_encode cp) r)"
  by simp

lemma unat_push_bit_small:
  fixes x :: "32 word"
  shows "unat x * 2 ^ n < 2 ^ 32 \<Longrightarrow> unat (push_bit n x) = unat x * 2 ^ n"
  by (simp only: unsigned_push_bit_eq) (simp add: take_bit_nat_eq_self push_bit_eq_mult)

lemma surrogate_pair_unat:
  fixes hi lo :: "32 word"
  assumes "0xD800 \<le> hi" "hi \<le> 0xDBFF" "0xDC00 \<le> lo" "lo \<le> 0xDFFF"
  shows "unat (0x10000 + push_bit 10 (hi - 0xD800) + (lo - 0xDC00)) =
        0x10000 + 1024 * (unat hi - 0xD800) + (unat lo - 0xDC00)"
proof -
  define x where "x = hi - 0xD800"
  define y where "y = lo - 0xDC00"
  have h: "unat hi \<le> 0xDBFF" "0xD800 \<le> unat hi" using assms(1,2) by (simp_all add: word_le_nat_alt)
  have l: "unat lo \<le> 0xDFFF" "0xDC00 \<le> unat lo" using assms(3,4) by (simp_all add: word_le_nat_alt)
  have a: "unat x = unat hi - 0xD800" using assms(1) by (simp add: x_def unat_sub)
  have b: "unat y = unat lo - 0xDC00" using assms(3) by (simp add: y_def unat_sub)
  have p: "unat (push_bit 10 x) = unat x * 2 ^ 10"
    by (rule unat_push_bit_small) (use h a in simp)
  have q: "unat (0x10000 + push_bit 10 x) = unat (0x10000 :: 32 word) + unat (push_bit 10 x)"
    by (rule unat_add_lem [THEN iffD1]) (use h a p in simp)
  have r: "unat (0x10000 + push_bit 10 x + y) = unat (0x10000 + push_bit 10 x) + unat y"
    by (rule unat_add_lem [THEN iffD1]) (use h l a b p q in simp)
  show ?thesis
    unfolding x_def [symmetric] y_def [symmetric] r q p a b by simp
qed


lemma surrogate_pair_range:
  fixes hi lo :: "32 word"
  assumes "0xD800 \<le> hi" "hi \<le> 0xDBFF" "0xDC00 \<le> lo" "lo \<le> 0xDFFF"
  shows "0x10000 \<le> 0x10000 + push_bit 10 (hi - 0xD800) + (lo - 0xDC00)"
    and "0x10000 + push_bit 10 (hi - 0xD800) + (lo - 0xDC00) \<le> 0x10FFFF"
proof -
  have h: "unat hi \<le> 0xDBFF" "0xD800 \<le> unat hi"
    using assms(1,2) by (simp_all add: word_le_nat_alt)
  have l: "unat lo \<le> 0xDFFF" "0xDC00 \<le> unat lo"
    using assms(3,4) by (simp_all add: word_le_nat_alt)
  show "0x10000 \<le> 0x10000 + push_bit 10 (hi - 0xD800) + (lo - 0xDC00)"
    unfolding word_le_nat_alt surrogate_pair_unat [OF assms] by simp
  show "0x10000 + push_bit 10 (hi - 0xD800) + (lo - 0xDC00) \<le> 0x10FFFF"
    unfolding word_le_nat_alt surrogate_pair_unat [OF assms] using h l by simp
qed

lemma low_surrogate_pair:
  assumes "length l = 4" "hex4_loop 0 l = Some lo" "0xDC00 \<le> lo" "lo \<le> 0xDFFF"
  shows "low_surrogate hi (CHR 0x5C # CHR ''u'' # l @ rest) =
           (0x10000 + push_bit 10 (hi - 0xD800) + (lo - 0xDC00), rest)"
  using assms by (simp add: low_surrogate_def)

lemma low_surrogate_lone:
  assumes "\<nexists>l lo rest. r = CHR 0x5C # CHR ''u'' # l @ rest \<and> length l = 4 \<and>
             hex4_loop 0 l = Some lo \<and> 0xDC00 \<le> lo \<and> lo \<le> 0xDFFF"
  shows "low_surrogate hi r = (hi, r)"
proof (rule ccontr)
  assume neq: "low_surrogate hi r \<noteq> (hi, r)"
  then obtain lo where len: "6 \<le> length r" and r0: "r ! 0 = CHR 0x5C" and r1: "r ! 1 = CHR ''u''"
    and hx: "hex4_loop 0 (take 4 (drop 2 r)) = Some lo" and lo: "0xDC00 \<le> lo" "lo \<le> 0xDFFF"
    by (auto simp: low_surrogate_def split: if_splits option.splits)
  from len r0 r1 have "r = CHR 0x5C # CHR ''u'' # take 4 (drop 2 r) @ drop 6 r"
    by (cases r; simp) (rename_tac a list, case_tac list; simp)
  moreover have "length (take 4 (drop 2 r)) = 4" using len by simp
  ultimately show False using assms hx lo by blast
qed


lemma unicode_escape_pair:
  assumes "length h = 4" "hex4_loop 0 h = Some hi" "0xD800 \<le> hi" "hi \<le> 0xDBFF"
    and "length l = 4" "hex4_loop 0 l = Some lo" "0xDC00 \<le> lo" "lo \<le> 0xDFFF"
  shows "unicode_escape (h @ CHR 0x5C # CHR ''u'' # l @ rest) =
           Some (0x10000 + push_bit 10 (hi - 0xD800) + (lo - 0xDC00), rest)"
proof -
  define cp where "cp = 0x10000 + push_bit 10 (hi - 0xD800) + (lo - 0xDC00)"
  have "0x10000 \<le> cp"
    unfolding cp_def by (rule surrogate_pair_range [OF assms(3,4,7,8)])
  then have ok: "\<not> ((0xD800 \<le> cp \<and> cp \<le> 0xDFFF) \<or> cp = 0)"
    by (auto simp: word_le_nat_alt)
  have "low_surrogate hi (CHR 0x5C # CHR ''u'' # l @ rest) = (cp, rest)"
    unfolding cp_def by (rule low_surrogate_pair [OF assms(5-8)])
  then show ?thesis
    using assms(1-4) ok by (simp add: unicode_escape_def cp_def [symmetric])
qed

lemma unicode_escape_lone_high:
  assumes "length h = 4" "hex4_loop 0 h = Some hi" "0xD800 \<le> hi" "hi \<le> 0xDBFF"
    and "\<nexists>l lo rest. r = CHR 0x5C # CHR ''u'' # l @ rest \<and> length l = 4 \<and>
             hex4_loop 0 l = Some lo \<and> 0xDC00 \<le> lo \<and> lo \<le> 0xDFFF"
  shows "unicode_escape (h @ r) = None"
proof -
  have "hi \<le> 0xDFFF" using assms(4) by (simp add: word_le_nat_alt)
  then show ?thesis
    using assms(1-4) low_surrogate_lone [OF assms(5), of hi]
    by (simp add: unicode_escape_def)
qed

lemma unicode_escape_lone_low:
  assumes "length h = 4" "hex4_loop 0 h = Some lo" "0xDC00 \<le> lo" "lo \<le> 0xDFFF"
  shows "unicode_escape (h @ r) = None"
proof -
  have "0xD800 \<le> lo" "\<not> lo \<le> 0xDBFF" using assms(3) by (simp_all add: word_le_nat_alt)
  then show ?thesis
    using assms by (simp add: unicode_escape_def)
qed

lemma utf8_encode_supplementary:
  "0x10000 \<le> cp \<Longrightarrow>
   utf8_encode cp =
     [to_char (0xF0 OR drop_bit 18 cp), to_char (0x80 OR (drop_bit 12 cp AND 0x3F)),
      to_char (0x80 OR (drop_bit 6 cp AND 0x3F)), to_char (0x80 OR (cp AND 0x3F))]"
  by (auto simp: utf8_encode_def word_le_nat_alt word_less_nat_alt)


lemma unescape_loop_plain:
  "CHR 0x5C \<notin> set pre \<Longrightarrow> unescape_loop out (pre @ s) = unescape_loop (out @ pre) s"
  by (induction pre arbitrary: out) auto

text \<open>
  Claim C4. Where the loop of \<^verbatim>\<open>unescape_string\<close> stands at an escape \<^verbatim>\<open>\uHHHH\<close> whose four
  digits \<open>h\<close> give a high surrogate \<open>hi\<close>: if the input goes on with an escape \<^verbatim>\<open>\uLLLL\<close>
  whose digits give a low surrogate \<open>lo\<close>, the loop writes the UTF-8 encoding (four
  bytes) of \<open>0x10000 + ((hi - 0xD800) << 10) + (lo - 0xDC00)\<close> and goes on behind the second
  escape; if the input does not go on so, the decode fails. It fails as well where the
  digits give a low surrogate. The loop reaches an escape that follows backslash-free
  bytes \<open>pre\<close> with \<open>pre\<close> written. \<^verbatim>\<open>"\uD83D\uDE00"\<close> decodes to the string of the bytes
  F0 9F 98 80, and \<^verbatim>\<open>"\uD800"\<close> and \<^verbatim>\<open>"\uDE00"\<close> are rejected.
\<close>
theorem C4_surrogate_pairs:
  "(length h = 4 \<and> hex4_loop 0 h = Some hi \<and> 0xD800 \<le> hi \<and> hi \<le> 0xDBFF \<and>
    length l = 4 \<and> hex4_loop 0 l = Some lo \<and> 0xDC00 \<le> lo \<and> lo \<le> 0xDFFF \<longrightarrow>
      unescape_loop out (CHR 0x5C # CHR ''u'' # h @ CHR 0x5C # CHR ''u'' # l @ rest) =
        unescape_loop
          (out @ utf8_encode (0x10000 + push_bit 10 (hi - 0xD800) + (lo - 0xDC00))) rest
      \<and> utf8_encode (0x10000 + push_bit 10 (hi - 0xD800) + (lo - 0xDC00)) =
          (let cp = 0x10000 + push_bit 10 (hi - 0xD800) + (lo - 0xDC00) in
           [to_char (0xF0 OR drop_bit 18 cp), to_char (0x80 OR (drop_bit 12 cp AND 0x3F)),
            to_char (0x80 OR (drop_bit 6 cp AND 0x3F)), to_char (0x80 OR (cp AND 0x3F))]))
   \<and> (length h = 4 \<and> hex4_loop 0 h = Some hi \<and> 0xD800 \<le> hi \<and> hi \<le> 0xDBFF \<and>
      (\<nexists>l' lo' rest'. r = CHR 0x5C # CHR ''u'' # l' @ rest' \<and> length l' = 4 \<and>
         hex4_loop 0 l' = Some lo' \<and> 0xDC00 \<le> lo' \<and> lo' \<le> 0xDFFF) \<longrightarrow>
      unescape_loop out (CHR 0x5C # CHR ''u'' # h @ r) = None)
   \<and> (length h = 4 \<and> hex4_loop 0 h = Some hi \<and> 0xDC00 \<le> hi \<and> hi \<le> 0xDFFF \<longrightarrow>
      unescape_loop out (CHR 0x5C # CHR ''u'' # h @ r) = None)
   \<and> (CHR 0x5C \<notin> set pre \<longrightarrow> unescape_string (pre @ s) = unescape_loop pre s)
   \<and> rjson_parse L (Some (''\"'' @ [CHR 0x5C] @ ''uD83D'' @ [CHR 0x5C] @ ''uDE00\"'')) =
       Some (RJSON_STRING [CHR 0xF0, CHR 0x9F, CHR 0x98, CHR 0x80])
   \<and> rjson_parse L (Some (''\"'' @ [CHR 0x5C] @ ''uD800\"'')) = None
   \<and> rjson_parse L (Some (''\"'' @ [CHR 0x5C] @ ''uDE00\"'')) = None"
proof -
  have pair: "unescape_loop out (CHR 0x5C # CHR ''u'' # h @ CHR 0x5C # CHR ''u'' # l @ rest) =
        unescape_loop
          (out @ utf8_encode (0x10000 + push_bit 10 (hi - 0xD800) + (lo - 0xDC00))) rest
      \<and> utf8_encode (0x10000 + push_bit 10 (hi - 0xD800) + (lo - 0xDC00)) =
          (let cp = 0x10000 + push_bit 10 (hi - 0xD800) + (lo - 0xDC00) in
           [to_char (0xF0 OR drop_bit 18 cp), to_char (0x80 OR (drop_bit 12 cp AND 0x3F)),
            to_char (0x80 OR (drop_bit 6 cp AND 0x3F)), to_char (0x80 OR (cp AND 0x3F))])"
    if "length h = 4" "hex4_loop 0 h = Some hi" "0xD800 \<le> hi" "hi \<le> 0xDBFF"
      "length l = 4" "hex4_loop 0 l = Some lo" "0xDC00 \<le> lo" "lo \<le> 0xDFFF"
    using unicode_escape_pair [OF that, of rest]
      utf8_encode_supplementary [OF surrogate_pair_range(1) [OF that(3,4,7,8)]]
    by (simp only: unescape_loop_u Let_def) simp
  have high: "unescape_loop out (CHR 0x5C # CHR ''u'' # h @ r) = None"
    if "length h = 4" "hex4_loop 0 h = Some hi" "0xD800 \<le> hi" "hi \<le> 0xDBFF"
      "\<nexists>l' lo' rest'. r = CHR 0x5C # CHR ''u'' # l' @ rest' \<and> length l' = 4 \<and>
         hex4_loop 0 l' = Some lo' \<and> 0xDC00 \<le> lo' \<and> lo' \<le> 0xDFFF"
    using unicode_escape_lone_high [OF that] by (simp only: unescape_loop_u) simp
  have low: "unescape_loop out (CHR 0x5C # CHR ''u'' # h @ r) = None"
    if "length h = 4" "hex4_loop 0 h = Some hi" "0xDC00 \<le> hi" "hi \<le> 0xDFFF"
    using unicode_escape_lone_low [OF that, of r] by (simp only: unescape_loop_u) simp
  have plain: "CHR 0x5C \<notin> set pre \<longrightarrow> unescape_string (pre @ s) = unescape_loop pre s"
    using unescape_loop_plain [of pre "[]" s] by (simp add: unescape_string_def)
  have e1: "rjson_parse L (Some (''\"'' @ [CHR 0x5C] @ ''uD83D'' @ [CHR 0x5C] @ ''uDE00\"'')) =
       Some (RJSON_STRING [CHR 0xF0, CHR 0x9F, CHR 0x98, CHR 0x80])"
    by (simp add: dec_eval cong: let_weak_cong)
  have e2: "rjson_parse L (Some (''\"'' @ [CHR 0x5C] @ ''uD800\"'')) = None"
    by (simp add: dec_eval cong: let_weak_cong)
  have e3: "rjson_parse L (Some (''\"'' @ [CHR 0x5C] @ ''uDE00\"'')) = None"
    by (simp add: dec_eval cong: let_weak_cong)
  have A: "(length h = 4 \<and> hex4_loop 0 h = Some hi \<and> 0xD800 \<le> hi \<and> hi \<le> 0xDBFF \<and>
    length l = 4 \<and> hex4_loop 0 l = Some lo \<and> 0xDC00 \<le> lo \<and> lo \<le> 0xDFFF \<longrightarrow>
      unescape_loop out (CHR 0x5C # CHR ''u'' # h @ CHR 0x5C # CHR ''u'' # l @ rest) =
        unescape_loop
          (out @ utf8_encode (0x10000 + push_bit 10 (hi - 0xD800) + (lo - 0xDC00))) rest
      \<and> utf8_encode (0x10000 + push_bit 10 (hi - 0xD800) + (lo - 0xDC00)) =
          (let cp = 0x10000 + push_bit 10 (hi - 0xD800) + (lo - 0xDC00) in
           [to_char (0xF0 OR drop_bit 18 cp), to_char (0x80 OR (drop_bit 12 cp AND 0x3F)),
            to_char (0x80 OR (drop_bit 6 cp AND 0x3F)), to_char (0x80 OR (cp AND 0x3F))]))"
    using pair by blast
  have B: "(length h = 4 \<and> hex4_loop 0 h = Some hi \<and> 0xD800 \<le> hi \<and> hi \<le> 0xDBFF \<and>
      (\<nexists>l' lo' rest'. r = CHR 0x5C # CHR ''u'' # l' @ rest' \<and> length l' = 4 \<and>
         hex4_loop 0 l' = Some lo' \<and> 0xDC00 \<le> lo' \<and> lo' \<le> 0xDFFF) \<longrightarrow>
      unescape_loop out (CHR 0x5C # CHR ''u'' # h @ r) = None)"
    using high by blast
  have C: "(length h = 4 \<and> hex4_loop 0 h = Some hi \<and> 0xDC00 \<le> hi \<and> hi \<le> 0xDFFF \<longrightarrow>
      unescape_loop out (CHR 0x5C # CHR ''u'' # h @ r) = None)"
    using low by blast
  show ?thesis
    by (intro conjI A B C plain e1 e2 e3)
qed

theorem C4_surrogate_pairs_witness:
  "length ''D83D'' = 4 \<and> hex4_loop 0 ''D83D'' = Some 0xD83D
   \<and> length ''DE00'' = 4 \<and> hex4_loop 0 ''DE00'' = Some 0xDE00
   \<and> unescape_loop ''a'' (CHR 0x5C # CHR ''u'' # ''D83D'' @ CHR 0x5C # CHR ''u'' # ''DE00'' @ ''z'') =
       Some (''a'' @ [CHR 0xF0, CHR 0x9F, CHR 0x98, CHR 0x80] @ ''z'')
   \<and> unescape_loop ''a'' (CHR 0x5C # CHR ''u'' # ''D83D'' @ ''z'') = None
   \<and> unescape_loop ''a'' (CHR 0x5C # CHR ''u'' # ''DE00'' @ ''z'') = None
   \<and> unescape_string (''ab'' @ CHR 0x5C # CHR ''u'' # ''DE00'') = None"
proof -
  have hx: "hex4_loop 0 ''D83D'' = Some 0xD83D" "hex4_loop 0 ''DE00'' = Some 0xDE00"
    by (simp_all add: hex_value_def uc_def)
  have cp: "(0x10000 + push_bit 10 (0xD83D - 0xD800) + (0xDE00 - 0xDC00) :: 32 word) = 0x1F600"
    by simp
  have bytes: "utf8_encode 0x1F600 = [CHR 0xF0, CHR 0x9F, CHR 0x98, CHR 0x80]"
    by (simp add: utf8_encode_def to_char_eq_iff)
  have z: "unescape_loop (''a'' @ [CHR 0xF0, CHR 0x9F, CHR 0x98, CHR 0x80]) ''z'' =
      Some (''a'' @ [CHR 0xF0, CHR 0x9F, CHR 0x98, CHR 0x80] @ ''z'')"
    by simp
  have nx: "\<nexists>l' lo' rest'. ''z'' = CHR 0x5C # CHR ''u'' # l' @ rest' \<and> length l' = 4 \<and>
         hex4_loop 0 l' = Some lo' \<and> 0xDC00 \<le> lo' \<and> lo' \<le> 0xDFFF"
    by simp
  note t = C4_surrogate_pairs [where h = "''D83D''" and hi = "0xD83D" and l = "''DE00''"
      and lo = "0xDE00" and out = "''a''" and rest = "''z''" and r = "''z''"
      and pre = "''ab''" and s = "CHR 0x5C # CHR ''u'' # ''DE00''" and L = ref_libc]
  note u = C4_surrogate_pairs [where h = "''DE00''" and hi = "0xDE00" and out = "''a''"
      and r = "''z''" and L = ref_libc]
  note w = C4_surrogate_pairs [where h = "''DE00''" and hi = "0xDE00" and out = "''ab''"
      and r = "[]" and L = ref_libc]
  have a: "unescape_loop ''a'' (CHR 0x5C # CHR ''u'' # ''D83D'' @ CHR 0x5C # CHR ''u'' # ''DE00'' @ ''z'') =
       Some (''a'' @ [CHR 0xF0, CHR 0x9F, CHR 0x98, CHR 0x80] @ ''z'')"
    using t hx bytes z by (simp add: cp)
  have b: "unescape_loop ''a'' (CHR 0x5C # CHR ''u'' # ''D83D'' @ ''z'') = None"
    using t hx nx by simp
  have c: "unescape_loop ''a'' (CHR 0x5C # CHR ''u'' # ''DE00'' @ ''z'') = None"
    using u hx by simp
  have d: "unescape_string (''ab'' @ CHR 0x5C # CHR ''u'' # ''DE00'') = None"
    using t w hx by simp
  from hx a b c d show ?thesis by simp
qed

subsection \<open>Numbers in the encoder\<close>

lemma serialize_nonfinite_all:
  "\<forall>sb depth. (\<exists>x \<in> set (numbers_of v). \<not> isfinite x) \<longrightarrow> serialize_value L v sb depth = None"
  "\<forall>i sb depth. (\<exists>x \<in> set (numbers_of_list es). \<not> isfinite x) \<longrightarrow>
     serialize_array_loop L es i sb depth = None"
  "\<forall>i sb depth. (\<exists>x \<in> set (numbers_of_members ms). \<not> isfinite x) \<longrightarrow>
     serialize_object_loop L ms i sb depth = None"
proof (induction v and es and ms rule: numbers_of_numbers_of_list_numbers_of_members.induct)
  case (3 x)
  show ?case by (simp add: serialize_number_def)
next
  case (5 elements)
  then show ?case by (auto split: option.splits)
next
  case (6 members)
  then show ?case by (auto split: option.splits)
next
  case (8 e es)
  show ?case
  proof (intro allI impI)
    fix i sb depth
    assume "\<exists>x \<in> set (numbers_of_list (e # es)). \<not> isfinite x"
    then consider "\<exists>x \<in> set (numbers_of e). \<not> isfinite x"
      | "\<exists>x \<in> set (numbers_of_list es). \<not> isfinite x"
      by auto
    then show "serialize_array_loop L (e # es) i sb depth = None"
    proof cases
      case 1
      with 8(1) show ?thesis by (simp add: Let_def)
    next
      case 2
      with 8(2) show ?thesis by (simp add: Let_def split: option.splits)
    qed
  qed
next
  case (10 k v ms)
  show ?case
  proof (intro allI impI)
    fix i sb depth
    assume "\<exists>x \<in> set (numbers_of_members ((k, v) # ms)). \<not> isfinite x"
    then consider "\<exists>x \<in> set (numbers_of v). \<not> isfinite x"
      | "\<exists>x \<in> set (numbers_of_members ms). \<not> isfinite x"
      by auto
    then show "serialize_object_loop L ((k, v) # ms) i sb depth = None"
    proof cases
      case 1
      with 10(1) show ?thesis by (simp add: Let_def)
    next
      case 2
      with 10(2) show ?thesis by (simp add: Let_def split: option.splits)
    qed
  qed
qed simp_all

lemma length_replace_comma [simp]: "length (replace_comma s) = length s"
  by (induction s) auto

lemmas enc_eval = rjson_serialize_def strbuf_init_def serialize_number_def isfinite_def
  RJSON_MAX_DEPTH_def strbuf_append_def rjson_number_new_def Let_def

text \<open>
  Claim C8. \<^verbatim>\<open>rjson_serialize\<close> on a value that contains a Number payload that is not
  finite returns -1 and leaves the variables behind \<open>out_string\<close> and \<open>out_length\<close> as
  they were. A finite number is written as the output of the format \<^verbatim>\<open>"%.17g"\<close>
  (precision 17: up to 17 significant digits), with its first comma turned into a
  point; the call fails if that output has 64 bytes or more. With the reference C
  library, a NaN and an infinity are refused and 0.1 is written as
  \<^verbatim>\<open>0.10000000000000001\<close>.
\<close>
theorem C8_nonfinite_fails:
  "(contains_nonfinite v \<longrightarrow>
      rjson_serialize L (Some v) out_string out_length = (- 1, out_string, out_length))
   \<and> (isfinite x \<longrightarrow>
        serialize_number L x sb =
          (if length (snprintf_g L 17 x) \<ge> 64 then None
           else Some (strbuf_append sb (replace_comma (take 63 (snprintf_g L 17 x)))
                        (length (snprintf_g L 17 x)))))
   \<and> (isfinite x \<and> length (snprintf_g L 17 x) < 64 \<and> out_string \<noteq> None \<longrightarrow>
        rjson_serialize L (Some (RJSON_NUMBER x)) out_string None =
          (0, Some (Some (replace_comma (snprintf_g L 17 x))), None))
   \<and> rjson_serialize ref_libc (Some (rjson_number_new 0x7FF8000000000000)) (Some None) None =
       (- 1, Some None, None)
   \<and> rjson_serialize ref_libc (Some (rjson_number_new 0x7FF0000000000000)) (Some None) None =
       (- 1, Some None, None)
   \<and> rjson_serialize ref_libc (Some (rjson_number_new 0x3FB999999999999A)) (Some None) None =
       (0, Some (Some ''0.10000000000000001''), None)"
proof -
  have a: "contains_nonfinite v \<longrightarrow>
      rjson_serialize L (Some v) out_string out_length = (- 1, out_string, out_length)"
    using serialize_nonfinite_all(1) [of v L]
    by (auto simp: contains_nonfinite_def rjson_serialize_def)
  have b: "isfinite x \<longrightarrow>
        serialize_number L x sb =
          (if length (snprintf_g L 17 x) \<ge> 64 then None
           else Some (strbuf_append sb (replace_comma (take 63 (snprintf_g L 17 x)))
                        (length (snprintf_g L 17 x))))"
    by (simp add: serialize_number_def Let_def)
  have c: "isfinite x \<and> length (snprintf_g L 17 x) < 64 \<and> out_string \<noteq> None \<longrightarrow>
        rjson_serialize L (Some (RJSON_NUMBER x)) out_string None =
          (0, Some (Some (replace_comma (snprintf_g L 17 x))), None)"
    by (auto simp: rjson_serialize_def serialize_number_def Let_def RJSON_MAX_DEPTH_def
        strbuf_init_def)
  have p: "ref_snprintf_g 17 0x3FB999999999999A = ''0.10000000000000001''"
    by (simp add: ref_eval cong: let_weak_cong)
  have d: "rjson_serialize ref_libc (Some (rjson_number_new 0x7FF8000000000000)) (Some None) None =
       (- 1, Some None, None)"
    by (simp add: enc_eval)
  have e: "rjson_serialize ref_libc (Some (rjson_number_new 0x7FF0000000000000)) (Some None) None =
       (- 1, Some None, None)"
    by (simp add: enc_eval)
  have f: "rjson_serialize ref_libc (Some (rjson_number_new 0x3FB999999999999A)) (Some None) None =
       (0, Some (Some ''0.10000000000000001''), None)"
    by (simp add: enc_eval ref_libc_def p)
  show ?thesis
    by (intro conjI a b c d e f)
qed


theorem C8_nonfinite_fails_witness:
  "contains_nonfinite
     (RJSON_ARRAY [RJSON_NULL, RJSON_OBJECT [(''k'', RJSON_NUMBER 0xFFF0000000000000)]])
   \<and> rjson_serialize ref_libc
       (Some (RJSON_ARRAY [RJSON_NULL, RJSON_OBJECT [(''k'', RJSON_NUMBER 0xFFF0000000000000)]]))
       (Some (Some ''old'')) (Some 7) = (- 1, Some (Some ''old''), Some 7)
   \<and> isfinite 0x3FB999999999999A
   \<and> length (snprintf_g ref_libc 17 0x3FB999999999999A) < 64
   \<and> Some (Some ''old'') \<noteq> None
   \<and> serialize_number ref_libc 0x3FB999999999999A (strbuf_init 1024) =
       Some \<lparr>buffer = ''0.10000000000000001'', length_sb = 19, capacity = 1024\<rparr>
   \<and> rjson_serialize ref_libc (Some (RJSON_NUMBER 0x3FB999999999999A)) (Some (Some ''old'')) None =
       (0, Some (Some ''0.10000000000000001''), None)"
proof -
  have p: "ref_snprintf_g 17 0x3FB999999999999A = ''0.10000000000000001''"
    by (simp add: ref_eval cong: let_weak_cong)
  have nf: "contains_nonfinite
     (RJSON_ARRAY [RJSON_NULL, RJSON_OBJECT [(''k'', RJSON_NUMBER 0xFFF0000000000000)]])"
    by (simp add: contains_nonfinite_def isfinite_def)
  have fin: "isfinite 0x3FB999999999999A"
    by (simp add: isfinite_def)
  note t = C8_nonfinite_fails [where L = ref_libc and x = "0x3FB999999999999A"
      and sb = "strbuf_init 1024" and out_string = "Some (Some ''old'')" and out_length = "Some 7"
      and v = "RJSON_ARRAY [RJSON_NULL, RJSON_OBJECT [(''k'', RJSON_NUMBER 0xFFF0000000000000)]]"]
  show ?thesis
    using t nf fin
    by (simp add: ref_libc_def p strbuf_append_def strbuf_init_def)
qed

subsection \<open>Number tokens\<close>

lemma number_scan_first:
  assumes "number_scan t = Some r"
  shows "peek t = CHR ''-'' \<or> isdigit (peek t)"
proof (cases "peek t = CHR ''-''")
  case False
  with assms obtain s2 where "number_int t = Some s2"
    by (auto simp: number_scan_def split: option.splits)
  then show ?thesis
    by (auto simp: number_int_def isdigit_def uc_def split: if_splits)
qed simp

lemma cstr_no_NUL: "NUL \<notin> set s \<Longrightarrow> cstr s = s"
  by (auto simp: cstr_def)

lemma skip_whitespace_not_ws: "\<not> is_ws (peek s) \<Longrightarrow> skip_whitespace s = s"
  by (cases s) (auto simp: skip_whitespace_def peek_def)

lemma number_first_not_ws: "c = CHR ''-'' \<or> isdigit c \<Longrightarrow> \<not> is_ws c"
  by (auto simp: is_ws_def isdigit_def uc_def)

lemma number_first_dispatch:
  "c = CHR ''-'' \<or> isdigit c \<Longrightarrow>
   c \<noteq> CHR 0x22 \<and> c \<noteq> CHR ''['' \<and> c \<noteq> CHR ''{'' \<and> c \<noteq> CHR ''t'' \<and> c \<noteq> CHR ''f'' \<and>
   c \<noteq> CHR ''n'' \<and> c \<noteq> CHR 0xEF"
  by (auto simp: isdigit_def uc_def)

lemma parse_value_number:
  assumes "peek s = CHR ''-'' \<or> isdigit (peek s)"
  shows "parse_value L s depth = parse_number L s"
  using number_first_dispatch [OF assms] number_first_not_ws [OF assms] assms
  by (subst parse_value.simps) (auto simp: Let_def skip_whitespace_not_ws)

text \<open>
  A number token with any continuation, where the first \<^verbatim>\<open>strtod\<close> stops at the end of the
  token: the outcome is decided by \<^verbatim>\<open>errno\<close> and \<^verbatim>\<open>isfinite\<close> alone.
\<close>
lemma parse_number_token:
  assumes "number_scan (t @ rest) = Some rest" "strtod L (t @ rest) = (num, length t, erange)"
  shows "parse_number L (t @ rest) =
           (if erange \<or> \<not> isfinite num then None else Some (RJSON_NUMBER num, rest))"
  using assms by (simp add: parse_number_def)

lemma parse_value_number_token:
  assumes "number_scan (t @ rest) = Some rest" "strtod L (t @ rest) = (num, length t, erange)"
  shows "parse_value L (t @ rest) depth =
           (if erange \<or> \<not> isfinite num then None else Some (RJSON_NUMBER num, rest))"
  using parse_value_number [OF number_scan_first [OF assms(1)], of L depth]
    parse_number_token [OF assms]
  by simp

lemma rjson_parse_number_token:
  assumes "number_scan t = Some []" "NUL \<notin> set t" "strtod L t = (num, length t, erange)"
  shows "rjson_parse L (Some t) =
           (if erange \<or> \<not> isfinite num then None else Some (RJSON_NUMBER num))"
proof -
  have first: "peek t = CHR ''-'' \<or> isdigit (peek t)"
    by (rule number_scan_first [OF assms(1)])
  have "peek t \<noteq> CHR 0xEF"
    using number_first_dispatch [OF first] by simp
  then have bom: "take 3 t \<noteq> [CHR 0xEF, CHR 0xBB, CHR 0xBF]"
    by (cases t) (auto simp: peek_def)
  have pv: "parse_value L t 0 =
      (if erange \<or> \<not> isfinite num then None else Some (RJSON_NUMBER num, []))"
    using parse_value_number_token [of t "[]" L num erange 0] assms(1,3) by simp
  show ?thesis
    using bom
    by (simp add: rjson_parse_def cstr_no_NUL [OF assms(2)] Let_def pv skip_whitespace_def
        peek_def)
qed

subsection \<open>The reference \<^verbatim>\<open>strtod\<close> at the ends of the range\<close>

lemma bitlen_nonneg: "0 \<le> bitlen n"
proof (induction n rule: bitlen.induct)
  case (1 n)
  then show ?case by (subst bitlen.simps) simp
qed

lemma bitlen_pos: "0 < n \<Longrightarrow> 0 < bitlen n"
  using bitlen_nonneg [of "n div 2"] by (subst bitlen.simps) simp

lemma bitlen_bounds:
  "0 < n \<Longrightarrow> 2 ^ nat (bitlen n - 1) \<le> n \<and> n < 2 ^ nat (bitlen n)"
proof (induction n rule: bitlen.induct)
  case (1 n)
  show ?case
  proof (cases "n = 1")
    case True
    then show ?thesis by (simp add: bitlen.simps)
  next
    case False
    with "1.prems" have h: "0 < n div 2" by simp
    have b: "bitlen n = 1 + bitlen (n div 2)"
      using "1.prems" by (subst bitlen.simps) simp
    from "1.IH" h "1.prems"
    have ih: "2 ^ nat (bitlen (n div 2) - 1) \<le> n div 2" "n div 2 < 2 ^ nat (bitlen (n div 2))"
      by auto
    have p: "0 < bitlen (n div 2)" by (rule bitlen_pos [OF h])
    then have e1: "nat (bitlen n - 1) = Suc (nat (bitlen (n div 2) - 1))"
      and e2: "nat (bitlen n) = Suc (nat (bitlen (n div 2)))"
      using b by auto
    show ?thesis
      unfolding e1 e2 using ih by auto
  qed
qed


lemma log2_adjust_le: "log2_adjust N D k \<le> k"
  by (simp add: log2_adjust_def)

lemma power2_less_imp_less:
  fixes a b :: nat
  shows "(2::int) ^ a < 2 ^ b \<Longrightarrow> a < b"
  by (simp add: power_strict_increasing_iff)

lemma floor_log2_upper:
  assumes N: "0 < N" and D: "0 < D" and tiny: "N * 2 ^ c \<le> D"
  shows "floor_log2 N D \<le> - int c"
proof -
  define bN where "bN = bitlen N"
  define bD where "bD = bitlen D"
  have pN: "0 < bN" and pD: "0 < bD"
    by (simp_all add: bN_def bD_def bitlen_pos N D)
  have "2 ^ nat (bN - 1) * 2 ^ c \<le> N * (2 ^ c :: int)"
    using bitlen_bounds [OF N] by (simp add: bN_def)
  also have "\<dots> \<le> D" by (rule tiny)
  also have "\<dots> < 2 ^ nat bD"
    using bitlen_bounds [OF D] by (simp add: bD_def)
  finally have "(2::int) ^ (nat (bN - 1) + c) < 2 ^ nat bD"
    by (simp add: power_add)
  then have "nat (bN - 1) + c < nat bD"
    by (rule power2_less_imp_less)
  then have k: "bN - bD \<le> - int c"
    using pN pD by linarith
  show ?thesis
    using log2_adjust_le [of N D "bN - bD"] k by (simp add: floor_log2_def bN_def bD_def)
qed

lemma floor_log2_lower:
  assumes D: "0 < D" and big: "D * 2 ^ c \<le> N"
  shows "int c \<le> floor_log2 N D"
proof -
  define bN where "bN = bitlen N"
  define bD where "bD = bitlen D"
  have "0 < D * (2 ^ c :: int)" using D by simp
  with big have N: "0 < N" by linarith
  have pN: "0 < bN" and pD: "0 < bD"
    by (simp_all add: bN_def bD_def bitlen_pos N D)
  have "2 ^ nat (bD - 1) * 2 ^ c \<le> D * (2 ^ c :: int)"
    using bitlen_bounds [OF D] by (simp add: bD_def)
  also have "\<dots> \<le> N" by (rule big)
  also have "\<dots> < 2 ^ nat bN"
    using bitlen_bounds [OF N] by (simp add: bN_def)
  finally have "(2::int) ^ (nat (bD - 1) + c) < 2 ^ nat bN"
    by (simp add: power_add)
  then have "nat (bD - 1) + c < nat bN"
    by (rule power2_less_imp_less)
  then have k: "int c \<le> bN - bD"
    using pN pD by linarith
  show ?thesis
  proof (cases "bN - bD = int c")
    case True
    then show ?thesis
      using big by (simp add: floor_log2_def log2_adjust_def bN_def [symmetric] bD_def [symmetric])
  next
    case False
    with k have "int c + 1 \<le> bN - bD" by simp
    then show ?thesis
      by (simp add: floor_log2_def log2_adjust_def bN_def [symmetric] bD_def [symmetric])
  qed
qed

lemma scale_binary64_tiny:
  assumes N: "0 < N" and tiny: "N * 2 ^ Suc c \<le> D"
  shows "scale_binary64 neg N D (- int c) = (sign_bit neg, True)"
proof -
  define M where "M = N * 2 ^ c"
  have M: "0 < M" using N by (simp add: M_def)
  have two: "2 * M \<le> D" using tiny by (simp add: M_def mult.commute mult.left_commute)
  then have lt: "M < D" using M by linarith
  have dv: "M div D = 0" and md: "M mod D = M"
    using lt M by (simp_all add: div_pos_pos_trivial mod_pos_pos_trivial)
  have he: "half_even 0 M D = 0"
    using two by (simp add: half_even_def)
  have "scale_binary64 neg N D (- int c) = round_binary64 neg M D (- int c)"
    by (simp add: scale_binary64_def M_def)
  also have "\<dots> = (sign_bit neg, True)"
    using M
    by (simp add: round_binary64_def round_half_even_def dv md he normalise_binary64_def
        pack_binary64_def)
  finally show ?thesis .
qed

lemma binary64_of_ratio_tiny:
  assumes N: "0 < N" and D: "0 < D" and tiny: "N * 2 ^ Suc 1074 \<le> D"
  shows "binary64_of_ratio neg N D = (sign_bit neg, True)"
proof -
  have "floor_log2 N D \<le> - int (Suc 1074)"
    by (rule floor_log2_upper [OF N D tiny])
  then have e: "max (floor_log2 N D - 52) (- 1074) = - int 1074"
    by simp
  show ?thesis
    using N scale_binary64_tiny [OF N tiny, of neg]
    by (simp only: binary64_of_ratio_def e) simp
qed

lemma pack_binary64_overflow:
  "971 < e \<Longrightarrow> pack_binary64 neg m e inexact = (sign_bit neg OR 0x7FF0000000000000, True)"
  by (simp add: pack_binary64_def)

lemma binary64_of_ratio_overflow:
  assumes D: "0 < D" and big: "D * 2 ^ c \<le> N" and c: "1024 \<le> c"
  shows "binary64_of_ratio neg N D = (sign_bit neg OR 0x7FF0000000000000, True)"
proof -
  have "0 < D * (2 ^ c :: int)" using D by simp
  with big have N: "0 < N" by linarith
  have lg: "int c \<le> floor_log2 N D"
    by (rule floor_log2_lower [OF D big])
  define e where "e = max (floor_log2 N D - 52) (- 1074)"
  have e: "971 < e" using lg c by (simp add: e_def)
  then have e': "971 < e + 1" by simp
  show ?thesis
    using N
    by (simp add: binary64_of_ratio_def e_def [symmetric] scale_binary64_def round_binary64_def
        normalise_binary64_def pack_binary64_overflow [OF e] pack_binary64_overflow [OF e'])
qed

lemma pow10_400: "(1::int) * 2 ^ Suc 1074 \<le> 10 ^ 400"
proof -
  have a: "Suc 1074 \<le> 13 * 100" by simp
  have "(2::int) ^ Suc 1074 \<le> 2 ^ (13 * 100)"
    by (rule power_increasing [OF a]) simp
  also have "\<dots> = (2 ^ 13) ^ 100" by (rule power_mult)
  also have "\<dots> \<le> (10 ^ 4) ^ 100" by (rule power_mono) simp_all
  also have "\<dots> = (10::int) ^ (4 * 100)" by (rule power_mult [symmetric])
  finally show ?thesis by (simp only: mult_1 mult_numeral_left_semiring_numeral num.simps
        mult.commute [of 4 100] numeral_times_numeral semiring_norm)
qed


lemma pow10_309: "(1::int) * 2 ^ 1024 \<le> 10 ^ 309"
proof -
  have "(2::int) ^ 1024 = 2 ^ (93 * 11 + 1)" by (simp del: power_numeral)
  also have "\<dots> = (2 ^ 93) ^ 11 * 2" by (simp only: power_add power_mult power_one_right)
  also have "\<dots> \<le> (10 ^ 28) ^ 11 * 10"
    by (rule mult_mono) (auto intro: power_mono)
  also have "\<dots> = (10::int) ^ (28 * 11 + 1)"
    by (simp only: power_add power_mult power_one_right)
  also have "\<dots> = 10 ^ 309" by (simp del: power_numeral)
  finally show ?thesis by (simp del: power_numeral)
qed

lemma ref_strtod_underflow: "ref_strtod ''1e-400'' = (0, 6, True)"
proof -
  have "ref_strtod ''1e-400'' =
      (case binary64_of_ratio False 1 (10 ^ 400) of
         (x, erange) \<Rightarrow> (x, length ''1e-400'', erange))"
    by (simp add: ref_strtod_def peek_def isdigit_def uc_def Let_def del: power_numeral
        cong: let_weak_cong)
  moreover have "binary64_of_ratio False 1 (10 ^ 400) = (sign_bit False, True)"
    by (rule binary64_of_ratio_tiny [OF _ _ pow10_400]) (simp_all del: power_numeral)
  ultimately show ?thesis by (simp add: sign_bit_def del: power_numeral)
qed

lemma ref_strtod_overflow: "ref_strtod ''1e309'' = (0x7FF0000000000000, 5, True)"
proof -
  have "ref_strtod ''1e309'' =
      (case binary64_of_ratio False (10 ^ 309) 1 of
         (x, erange) \<Rightarrow> (x, length ''1e309'', erange))"
    by (simp add: ref_strtod_def peek_def isdigit_def uc_def Let_def del: power_numeral
        cong: let_weak_cong)
  moreover have "binary64_of_ratio False (10 ^ 309) 1 =
      (sign_bit False OR 0x7FF0000000000000, True)"
    by (rule binary64_of_ratio_overflow [OF _ pow10_309]) (simp_all del: power_numeral)
  ultimately show ?thesis by (simp add: sign_bit_def del: power_numeral)
qed


lemma number_scan_examples:
  "number_scan ''1e-400'' = Some []" "number_scan ''1e309'' = Some []"
  "number_scan ''-12.5e-3'' = Some []"
  by (simp_all add: number_scan_def number_int_def number_frac_def number_exp_def peek_def
      isdigit_def uc_def Let_def)

lemma ref_strtod_underflow_element: "ref_strtod ''1e-400]'' = (0, 6, True)"
proof -
  have "ref_strtod ''1e-400]'' =
      (case binary64_of_ratio False 1 (10 ^ 400) of
         (x, erange) \<Rightarrow> (x, length ''1e-400]'' - length '']'', erange))"
    by (simp add: ref_strtod_def peek_def isdigit_def uc_def Let_def del: power_numeral
        cong: let_weak_cong)
  moreover have "binary64_of_ratio False 1 (10 ^ 400) = (sign_bit False, True)"
    by (rule binary64_of_ratio_tiny [OF _ _ pow10_400]) (simp_all del: power_numeral)
  ultimately show ?thesis by (simp add: sign_bit_def del: power_numeral)
qed

lemma ref_strtod_overflow_element: "ref_strtod ''1e309]'' = (0x7FF0000000000000, 5, True)"
proof -
  have "ref_strtod ''1e309]'' =
      (case binary64_of_ratio False (10 ^ 309) 1 of
         (x, erange) \<Rightarrow> (x, length ''1e309]'' - length '']'', erange))"
    by (simp add: ref_strtod_def peek_def isdigit_def uc_def Let_def del: power_numeral
        cong: let_weak_cong)
  moreover have "binary64_of_ratio False (10 ^ 309) 1 =
      (sign_bit False OR 0x7FF0000000000000, True)"
    by (rule binary64_of_ratio_overflow [OF _ pow10_309]) (simp_all del: power_numeral)
  ultimately show ?thesis by (simp add: sign_bit_def del: power_numeral)
qed

lemma number_scan_element_examples:
  "number_scan (''1e-400'' @ '']'') = Some '']''" "number_scan (''1e309'' @ '']'') = Some '']''"
  "number_scan (''-12.5e-3'' @ '']'') = Some '']''"
  by (simp_all add: number_scan_def number_int_def number_frac_def number_exp_def peek_def
      isdigit_def uc_def Let_def)

text \<open>An array whose only element is a number token that the decoder refuses.\<close>
lemma rjson_parse_array_of_refused:
  assumes "parse_value L (t @ '']'') 1 = None" "NUL \<notin> set t"
    and "peek (t @ '']'') = CHR ''-'' \<or> isdigit (peek (t @ '']''))"
  shows "rjson_parse L (Some (CHR ''['' # t @ '']'')) = None"
proof -
  have ws: "skip_whitespace (t @ '']'') = t @ '']''"
    by (rule skip_whitespace_not_ws [OF number_first_not_ws [OF assms(3)]])
  have nb: "peek (t @ '']'') \<noteq> CHR '']''"
    using assms(3) by (auto simp: isdigit_def uc_def)
  have pl: "parse_array_loop L (RJSON_ARRAY []) (t @ '']'') 0 = None"
    using assms(1) by (subst parse_array_loop_eq) simp
  have pa: "parse_array L (CHR ''['' # t @ '']'') 0 = None"
    by (subst parse_array.simps)
      (simp add: nb ws pl RJSON_MAX_DEPTH_def Let_def rjson_array_new_def)
  have pv: "parse_value L (CHR ''['' # t @ '']'') 0 = None"
    by (subst parse_value.simps) (simp add: skip_whitespace_def is_ws_def peek_def pa Let_def)
  have c: "cstr (CHR ''['' # t @ '']'') = CHR ''['' # t @ '']''"
    using assms(2) by (intro cstr_no_NUL) (simp add: NUL_def)
  show ?thesis
    by (simp add: rjson_parse_def c pv Let_def)
qed

text \<open>
  Claim C3 as stated fails where the C library reports an underflow through \<^verbatim>\<open>errno\<close>:
  \<^verbatim>\<open>1e-400\<close> is a valid number token, its conversion stops at the end of the token and
  yields the finite value 0, and \<^verbatim>\<open>rjson_parse\<close> rejects it, alone and as the element of
  an array.
\<close>
theorem C3_underflow_rejected:
  "number_scan ''1e-400'' = Some []
   \<and> strtod ref_libc ''1e-400'' = (0, 6, True)
   \<and> isfinite 0
   \<and> rjson_parse ref_libc (Some ''1e-400'') = None
   \<and> rjson_parse ref_libc (Some ''[1e-400]'') = None"
proof -
  have s: "strtod ref_libc ''1e-400'' = (0, length ''1e-400'', True)"
    by (simp add: ref_libc_def ref_strtod_underflow)
  have a: "rjson_parse ref_libc (Some ''1e-400'') = None"
    using rjson_parse_number_token [OF number_scan_examples(1) _ s]
    by (simp add: NUL_def)
  have s': "strtod ref_libc (''1e-400'' @ '']'') = (0, length ''1e-400'', True)"
    by (simp add: ref_libc_def ref_strtod_underflow_element)
  have "parse_value ref_libc (''1e-400'' @ '']'') 1 = None"
    using parse_value_number_token [OF number_scan_element_examples(1) s'] by simp
  then have b: "rjson_parse ref_libc (Some ''[1e-400]'') = None"
    using rjson_parse_array_of_refused [of ref_libc "''1e-400''"]
    by (simp add: NUL_def peek_def isdigit_def uc_def)
  show ?thesis
    using a b by (simp add: number_scan_examples ref_libc_def ref_strtod_underflow isfinite_def)
qed

text \<open>
  Claim C3, amended. For every syntactically valid number token, whatever follows it and
  at whatever depth, at which \<^verbatim>\<open>strtod\<close> stops at the end of the token (as it does in the C
  locale): the decoder fails exactly when \<^verbatim>\<open>strtod\<close> sets \<^verbatim>\<open>errno\<close> to \<^verbatim>\<open>ERANGE\<close> or returns a
  value that is not finite, and otherwise yields the Number that \<^verbatim>\<open>strtod\<close> returned and
  leaves the cursor behind the token; \<^verbatim>\<open>rjson_parse\<close> on such a token as the whole input
  does the same. The overflowing \<^verbatim>\<open>1e309\<close> is rejected, alone and as the element of an
  array. The underflowing \<^verbatim>\<open>1e-400\<close> is accepted, as the Number 0, where \<^verbatim>\<open>strtod\<close> returns 0
  and leaves \<^verbatim>\<open>errno\<close> alone.
\<close>
theorem C3_number_range:
  "(number_scan (t @ rest) = Some rest \<and> strtod L (t @ rest) = (num, length t, erange) \<longrightarrow>
      parse_number L (t @ rest) =
        (if erange \<or> \<not> isfinite num then None else Some (RJSON_NUMBER num, rest))
      \<and> parse_value L (t @ rest) depth =
        (if erange \<or> \<not> isfinite num then None else Some (RJSON_NUMBER num, rest)))
   \<and> (number_scan t = Some [] \<and> NUL \<notin> set t \<and> strtod L t = (num, length t, erange) \<longrightarrow>
        rjson_parse L (Some t) =
          (if erange \<or> \<not> isfinite num then None else Some (RJSON_NUMBER num)))
   \<and> rjson_parse ref_libc (Some ''1e309'') = None
   \<and> rjson_parse ref_libc (Some ''[1e309]'') = None
   \<and> (strtod L ''1e-400'' = (0, 6, False) \<longrightarrow>
        rjson_parse L (Some ''1e-400'') = Some (RJSON_NUMBER 0))"
proof -
  have a: "number_scan (t @ rest) = Some rest \<and> strtod L (t @ rest) = (num, length t, erange) \<longrightarrow>
      parse_number L (t @ rest) =
        (if erange \<or> \<not> isfinite num then None else Some (RJSON_NUMBER num, rest))
      \<and> parse_value L (t @ rest) depth =
        (if erange \<or> \<not> isfinite num then None else Some (RJSON_NUMBER num, rest))"
    using parse_number_token [of t rest L num erange]
      parse_value_number_token [of t rest L num erange depth]
    by blast
  have a': "number_scan t = Some [] \<and> NUL \<notin> set t \<and> strtod L t = (num, length t, erange) \<longrightarrow>
        rjson_parse L (Some t) =
          (if erange \<or> \<not> isfinite num then None else Some (RJSON_NUMBER num))"
    using rjson_parse_number_token [of t L num erange] by blast
  have s: "strtod ref_libc ''1e309'' = (0x7FF0000000000000, length ''1e309'', True)"
    by (simp add: ref_libc_def ref_strtod_overflow)
  have b: "rjson_parse ref_libc (Some ''1e309'') = None"
    using rjson_parse_number_token [OF number_scan_examples(2) _ s]
    by (simp add: NUL_def)
  have s': "strtod ref_libc (''1e309'' @ '']'') = (0x7FF0000000000000, length ''1e309'', True)"
    by (simp add: ref_libc_def ref_strtod_overflow_element)
  have "parse_value ref_libc (''1e309'' @ '']'') 1 = None"
    using parse_value_number_token [OF number_scan_element_examples(2) s'] by simp
  then have b': "rjson_parse ref_libc (Some ''[1e309]'') = None"
    using rjson_parse_array_of_refused [of ref_libc "''1e309''"]
    by (simp add: NUL_def peek_def isdigit_def uc_def)
  have c: "strtod L ''1e-400'' = (0, 6, False) \<longrightarrow>
        rjson_parse L (Some ''1e-400'') = Some (RJSON_NUMBER 0)"
    using rjson_parse_number_token [OF number_scan_examples(1), of L 0 False]
    by (simp add: NUL_def isfinite_def)
  show ?thesis
    by (intro conjI a a' b b' c)
qed

theorem C3_number_range_witness:
  "number_scan (''-12.5e-3'' @ '']'') = Some '']''
   \<and> strtod ref_libc (''-12.5e-3'' @ '']'') = (0xBF8999999999999A, length ''-12.5e-3'', False)
   \<and> parse_number ref_libc ''-12.5e-3]'' = Some (RJSON_NUMBER 0xBF8999999999999A, '']'')
   \<and> parse_value ref_libc ''-12.5e-3]'' 1 = Some (RJSON_NUMBER 0xBF8999999999999A, '']'')
   \<and> number_scan ''-12.5e-3'' = Some [] \<and> NUL \<notin> set ''-12.5e-3''
   \<and> strtod ref_libc ''-12.5e-3'' = (0xBF8999999999999A, length ''-12.5e-3'', False)
   \<and> rjson_parse ref_libc (Some ''-12.5e-3'') = Some (RJSON_NUMBER 0xBF8999999999999A)
   \<and> strtod ref_libc_quiet ''1e-400'' = (0, 6, False)
   \<and> rjson_parse ref_libc_quiet (Some ''1e-400'') = Some (RJSON_NUMBER 0)"
proof -
  have s: "ref_strtod ''-12.5e-3'' = (0xBF8999999999999A, 8, False)"
    by (simp add: ref_eval cong: let_weak_cong)
  have s': "ref_strtod ''-12.5e-3]'' = (0xBF8999999999999A, 8, False)"
    by (simp add: ref_eval cong: let_weak_cong)
  have q: "strtod ref_libc_quiet ''1e-400'' = (0, 6, False)"
    by (simp add: ref_libc_quiet_def ref_strtod_quiet_def ref_strtod_underflow isfinite_def)
  have n: "NUL \<notin> set ''-12.5e-3''"
    by (simp add: NUL_def)
  have h: "strtod ref_libc (''-12.5e-3'' @ '']'') = (0xBF8999999999999A, length ''-12.5e-3'', False)"
    "strtod ref_libc ''-12.5e-3'' = (0xBF8999999999999A, length ''-12.5e-3'', False)"
    by (simp_all add: ref_libc_def s s')
  have fin: "isfinite 0xBF8999999999999A"
    by (simp add: isfinite_def)
  note t = C3_number_range [where t = "''-12.5e-3''" and L = ref_libc and rest = "'']''"
      and num = "0xBF8999999999999A" and erange = False and depth = 1]
  note u = C3_number_range [where L = ref_libc_quiet]
  have a: "parse_number ref_libc ''-12.5e-3]'' = Some (RJSON_NUMBER 0xBF8999999999999A, '']'')"
    "parse_value ref_libc ''-12.5e-3]'' 1 = Some (RJSON_NUMBER 0xBF8999999999999A, '']'')"
    "rjson_parse ref_libc (Some ''-12.5e-3'') = Some (RJSON_NUMBER 0xBF8999999999999A)"
    using t number_scan_examples(3) number_scan_element_examples(3) n h fin by simp_all
  have b: "rjson_parse ref_libc_quiet (Some ''1e-400'') = Some (RJSON_NUMBER 0)"
    using u q by blast
  show ?thesis
    by (intro conjI a b q n h number_scan_examples(3) number_scan_element_examples(3))
qed

section \<open>The mutators and the release on the heap\<close>

lemmas mem_eval = next_decision_def new_block_def alloc_def free_mem_def resize_def
  realloc_ptrs_def store_ptr_def load_ptr_def cstr_def NUL_def Let_def
  empty_array_mem_def empty_object_mem_def first_member_mem_def type_at_def













text \<open>
  Claim C6. The claim does not hold of \<^verbatim>\<open>rjson_object_add\<close> where the second growth fails.
  On an empty object (both arrays NULL) with the key \<^verbatim>\<open>"a"\<close>: the copy of the key is
  allocated (at 3), the growth of \<open>keys\<close> succeeds (a new block at 4) and is stored in
  the object, the growth of \<open>values\<close> fails, and the \<^verbatim>\<open>realloc\<close> that shrinks \<open>keys\<close> back
  to the size 0 releases the block, as glibc does; its result is dropped. The call
  returns -1 and the child is not absorbed, but the field \<open>keys\<close> of the object, NULL
  before the call, now points to the released block 4, and releasing the object with
  \<^verbatim>\<open>rjson_free\<close> releases that block a second time. Where the shrinking \<^verbatim>\<open>realloc\<close> refuses
  or resizes in place, the field \<open>keys\<close> points to a live block and the count is as
  before.
\<close>
theorem C6_second_growth_failure:
  "(\<exists>m. rjson_object_add_mem 1 (Some ''a'') 2 (empty_object_mem [Stay, Stay, Fail, Release]) =
          Inr (- 1, m)
        \<and> cells (empty_object_mem [Stay, Stay, Fail, Release]) 1 = Some (Val_object 0 0 0)
        \<and> cells m 1 = Some (Val_object 4 0 0)
        \<and> cells m 2 = Some Val_null
        \<and> cells m 3 = None
        \<and> cells m 4 = None
        \<and> rjson_free_mem (Suc (Suc 0)) 1 m = Inl (Invalid_free 4))
   \<and> (\<exists>m. rjson_object_add_mem 1 (Some ''a'') 2 (empty_object_mem [Stay, Stay, Fail, Fail]) =
          Inr (- 1, m)
        \<and> cells m 1 = Some (Val_object 4 0 0)
        \<and> cells m 4 = Some (Ptrs [None])
        \<and> (\<exists>m'. rjson_free_mem (Suc (Suc 0)) 1 m = Inr m' \<and> cells m' 1 = None \<and> cells m' 4 = None))"
  by (simp add: rjson_object_add_mem_def mem_eval)

text \<open>
  Claim C9. The claim does not hold of the decoder where the growth of \<open>values\<close> fails in
  \<^verbatim>\<open>rjson_object_add\<close>, by the defect of claim C6. On the input \<^verbatim>\<open>{"a":1}\<close>, with the object,
  the key and the number built: the addition of the first member fails as above and
  leaves the field \<open>keys\<close> of the object pointing to the released block (at 6); the
  failure path of \<^verbatim>\<open>parse_object\<close> releases the key value and the number, and then the
  object, whose release frees the block at 6 a second time. Where no allocation fails,
  the same round adds the member and releases the temporary key, and \<^verbatim>\<open>rjson_free\<close> on
  the object then releases every block once.
\<close>
theorem C9_double_release:
  "parse_object_add_mem (Suc (Suc 0)) 1 3 4 (first_member_mem [Stay, Stay, Fail, Release]) =
     Inl (Invalid_free 6)
   \<and> (\<exists>m. parse_object_add_mem (Suc (Suc 0)) 1 3 4 (first_member_mem [Stay, Stay, Stay]) =
            Inr (True, m)
          \<and> cells m 1 = Some (Val_object 6 7 1) \<and> cells m 2 = None \<and> cells m 3 = None
          \<and> cells m 5 = Some (Chars ''a'') \<and> cells m 6 = Some (Ptrs [Some 5])
          \<and> cells m 7 = Some (Ptrs [Some 4])
          \<and> (\<exists>m'. rjson_free_mem (Suc (Suc 0)) 1 m = Inr m' \<and> (\<forall>a. cells m' a = None)))"
  by (simp add: rjson_object_add_mem_def parse_object_add_mem_def mem_eval)

section \<open>The round trip of the codec\<close>

subsection \<open>Strings escaped and read back\<close>












subsection \<open>What the decoder builds\<close>














lemma decoded_list_append [simp]: "decoded_list (es @ [e]) = (decoded_list es \<and> decoded e)"
  by (induction es) auto

lemma decoded_members_append [simp]:
  "decoded_members (ms @ [(k, v)]) = (decoded_members ms \<and> NUL \<notin> set k \<and> decoded v)"
  by (induction ms) auto






subsection \<open>The encoder's output read back\<close>



lemma delimiter_not_ws: "delimiter c \<Longrightarrow> \<not> is_ws c"
  by (auto simp: delimiter_def is_ws_def NUL_def)

lemma skip_whitespace_delimiter: "delimiter (peek rest) \<Longrightarrow> skip_whitespace rest = rest"
  by (rule skip_whitespace_not_ws [OF delimiter_not_ws])










subsection \<open>When the encoder accepts a tree\<close>

lemma levels_pos: "0 < levels v"
  by (cases v) auto



subsection \<open>The round trip\<close>


lemma numbers_of_wrap_arrays: "numbers_of (wrap_arrays n v) = numbers_of v"
  by (induction n) auto













end
